theory Spec2Isabelle
  imports Main "HOL-Library.Sublist"
begin

section \<open>The pymochow example script\<close>

text \<open>
  The repository holds one file, \<^verbatim>\<open>example/example.py\<close>: a class \<^verbatim>\<open>TestMochow\<close> whose
  methods call a vector-database SDK one after another, and a main program that runs these
  methods in a fixed order. The SDK and the server behind it are not part of the repository.
  The embedding therefore runs the script against a \<^emph>\<open>world\<close>: a family of oracles that
  answers every SDK call, by a value or by an exception, knowing everything that has happened
  so far. A run yields the trace of what the script did (SDK calls with their answers, sleeps,
  log lines) and how it ended.
\<close>

subsection \<open>Enumerations of \<^verbatim>\<open>pymochow.model.enum\<close> as the script uses them\<close>

text \<open>
  The enumerations are declared by the SDK. Each datatype lists the members the script names
  and one more constructor that stands for every other member.
\<close>

datatype IndexType = HNSW | HNSWPQ | PUCK | SPARSE_OPTIMIZED_FLAT | OtherIndexType string

datatype MetricType = L2 | IP

datatype FieldType =
  STRING | UINT32 | TEXT | FLOAT_VECTOR | ARRAY | JSON | BINARY_VECTOR | SPARSE_FLOAT_VECTOR

datatype ElementType = ElementType_STRING

datatype ServerErrCode = TABLE_NOT_EXIST | INDEX_NOT_EXIST | OtherServerErrCode int

datatype TableState = TableState_NORMAL | OtherTableState string

datatype IndexState = IndexState_NORMAL | OtherIndexState string

datatype InvertedIndexAnalyzer = CHINESE_ANALYZER

datatype InvertedIndexParseMode = COARSE_MODE

datatype InvertedIndexFieldAttribute = ANALYZED

subsection \<open>Exceptions\<close>

text \<open>
  \<open>ClientError\<close> and \<open>ServerError\<close> are the two exception classes the script imports from the
  SDK; a \<open>ServerError\<close> carries a code. \<open>OtherError\<close> is any other exception an SDK call may
  raise. \<open>Exception\<close> is Python's \<^verbatim>\<open>raise Exception(msg)\<close>. \<open>UnboundLocalError\<close> (a subclass of
  \<^verbatim>\<open>NameError\<close> in Python) is raised by reading a local variable that no executed statement
  has assigned; \<open>ValueError\<close> by \<^verbatim>\<open>int(s)\<close> on a string that is no number; \<open>AssertionError\<close>
  by a failed \<^verbatim>\<open>assert\<close>.
\<close>

datatype exn =
    ClientError
  | ServerError ServerErrCode
  | OtherError string
  | Exception string
  | UnboundLocalError string
  | ValueError
  | AssertionError

fun is_NameError :: "exn \<Rightarrow> bool" where
  "is_NameError (UnboundLocalError v) = True"
| "is_NameError e = False"

subsection \<open>Objects the script builds and hands to the SDK\<close>

text \<open>
  Keyword arguments are kept as the script writes them. Floating-point literals are kept as
  their source text; the script computes with none of them except in the rows of
  \<^verbatim>\<open>upsert_data\<close>, whose column values are payload that the script never reads back.
  Chinese string literals of the source are written in Pinyin.
\<close>

type_synonym float_lit = string

datatype field_arg =
    primary_key bool
  | partition_key bool
  | auto_increment bool
  | not_null bool
  | dimension int
  | element_type ElementType

datatype Field = Field string FieldType "field_arg list"

datatype index_params =
    HNSWParams (m: nat) (efconstruction: nat)
  | HNSWPQParams (m: nat) (efconstruction: nat) (NSQ: nat) (samplerate: float_lit)
  | PUCKParams (coarseClusterCount: nat) (fineClusterCount: nat)
  | InvertedIndexParams InvertedIndexAnalyzer InvertedIndexParseMode bool

datatype Index =
    VectorIndex (index_name: string) (index_type: IndexType) (field: string)
      (metric_type: MetricType) (params: "index_params option") (auto_build: "bool option")
  | SecondaryIndex string string
  | FilteringIndex string "string list"
  | InvertedIndex string "string list" index_params "InvertedIndexFieldAttribute list"

datatype vector =
    FloatVector "float_lit list"
  | BinaryVector "int list"
  | SparseFloatVector "(nat \<times> float_lit) list"
  | PlainVector "float_lit list"
    \<comment> \<open>a plain list of literals, as the first five book rows have it\<close>
  | BookVector int
    \<comment> \<open>the plain list \<^verbatim>\<open>[i, 0.2 + i * 0.01, 0.213, 0]\<close> that the loop of \<^verbatim>\<open>upsert_data\<close>
       computes for \<open>i\<close>, named by \<open>i\<close> and not evaluated\<close>

text \<open>
  Of a row the model keeps the id and the vector; the other columns (book name, author,
  page, segment, array and JSON field) are not modelled.
\<close>

datatype Row = Row (row_id: string) (row_vector: vector)

datatype VectorSearchConfig = ef nat | search_coarse_count nat

datatype ranking = RRFRank nat | WeightedRank "float_lit list"

datatype search_request =
    VectorTopkSearchRequest (vector_field: string) vector (limit: "nat option")
      (flt: "string option") (config: "VectorSearchConfig option")
  | VectorRangeSearchRequest string vector "nat \<times> nat" nat "string option"
      "VectorSearchConfig option"
  | VectorBatchSearchRequest string "vector list" nat "string option"
      "VectorSearchConfig option"
  | MultiVectorSearchRequest "search_request list" ranking nat "string option"

datatype BM25SearchRequest =
  BM25SearchRequest string string "nat option" "string option"

datatype HybridSearchRequest =
  HybridSearchRequest search_request float_lit BM25SearchRequest float_lit string nat

definition san_guo_yan_yi :: string where
  "san_guo_yan_yi = ''bookName=San Guo Yan Yi''"

definition lv_bu :: string where
  "lv_bu = ''Lv Bu''"

subsection \<open>SDK calls, answers and traces\<close>

text \<open>
  A database handle is named by its database, a table handle by database and table, a search
  iterator by the script's variable. \<open>marker\<close> is the opaque continuation token of
  \<^verbatim>\<open>table.select\<close>.
\<close>

type_synonym table_ref = "string \<times> string"

type_synonym marker = "nat option"

datatype sdk_call =
    Database string
  | CreateDatabase string
  | ListDatabases
  | Close
  | DropDatabase string
  | DropTable string string
  | CreateTable string string nat nat "Field list" "Index list option"
  | DescribeTable string string
  | ModifyTable string string float_lit
  | Table string string
  | Upsert table_ref "Row list"
  | AddFields table_ref "Field list"
  | Stats table_ref
  | Query table_ref string "string list" bool
  | BatchQuery table_ref "string list" "string list" bool
  | Select table_ref marker "string list" nat
  | Update table_ref string "string list"
  | Delete table_ref string
  | RebuildIndex table_ref string
  | DescribeIndex table_ref string
  | DropIndex table_ref string
  | CreateIndexes table_ref "Index list"
  | ModifyIndex table_ref string bool string
  | VectorSearch table_ref search_request "string list option"
  | BM25Search table_ref BM25SearchRequest
  | HybridSearch table_ref HybridSearchRequest
  | SearchIterator string table_ref search_request nat nat
  | IteratorNext string
  | IteratorClose string

datatype resp =
    Done
  | TableDescription TableState
  | IndexDescription IndexState
  | DatabaseList "string list"
  | SelectResult bool marker
  | RowBatch "Row list"

datatype event =
    Call sdk_call "exn + resp"
  | Sleep nat
  | Log string

text \<open>
  The world. Every oracle sees the trace so far and the call. \<open>sdk_answer\<close> answers the calls
  whose result the script only logs or uses as a handle; the other oracles answer the calls
  whose result the script inspects, with the attribute values it reads.
\<close>

record world =
  sdk_answer :: "event list \<Rightarrow> sdk_call \<Rightarrow> exn + unit"
  describe_table_answer :: "event list \<Rightarrow> sdk_call \<Rightarrow> exn + TableState"
  describe_index_answer :: "event list \<Rightarrow> sdk_call \<Rightarrow> exn + IndexState"
  list_databases_answer :: "event list \<Rightarrow> sdk_call \<Rightarrow> exn + string list"
  select_answer :: "event list \<Rightarrow> sdk_call \<Rightarrow> exn + (bool \<times> marker)"
  next_answer :: "event list \<Rightarrow> sdk_call \<Rightarrow> exn + Row list"

text \<open>
  How a run ends: it returns a value, it raises an exception nothing caught, or it is still
  inside an unbounded loop after the number of iterations that the run was given.
\<close>

datatype 'a outcome = Return 'a | Raise exn | Running

type_synonym 'a prog = "world \<Rightarrow> event list \<Rightarrow> event list \<times> 'a outcome"

definition ret :: "'a \<Rightarrow> 'a prog" where
  "ret x w tr = (tr, Return x)"

definition raise :: "exn \<Rightarrow> 'a prog" where
  "raise e w tr = (tr, Raise e)"

definition running :: "'a prog" where
  "running w tr = (tr, Running)"

definition bind :: "'a prog \<Rightarrow> ('a \<Rightarrow> 'b prog) \<Rightarrow> 'b prog" where
  "bind p f w tr =
     (case p w tr of
        (tr', Return x) \<Rightarrow> f x w tr'
      | (tr', Raise e) \<Rightarrow> (tr', Raise e)
      | (tr', Running) \<Rightarrow> (tr', Running))"

definition seq :: "'a prog \<Rightarrow> 'b prog \<Rightarrow> 'b prog" where
  "seq p q = bind p (\<lambda>_. q)"

text \<open>
  \<^verbatim>\<open>try: p  except ...: h\<close>. The handler function is \<open>None\<close> on the exceptions that no
  \<^verbatim>\<open>except\<close> clause matches; such an exception goes on to the caller.
\<close>

definition try_except :: "'a prog \<Rightarrow> (exn \<Rightarrow> 'a prog option) \<Rightarrow> 'a prog" where
  "try_except p h w tr =
     (case p w tr of
        (tr', Raise e) \<Rightarrow> (case h e of Some q \<Rightarrow> q w tr' | None \<Rightarrow> (tr', Raise e))
      | r \<Rightarrow> r)"

text \<open>The two \<^verbatim>\<open>except\<close> clauses of the script: \<^verbatim>\<open>except ClientError\<close> and \<^verbatim>\<open>except ServerError as e\<close>.\<close>

definition except_ClientError :: "'a prog \<Rightarrow> exn \<Rightarrow> 'a prog option" where
  "except_ClientError q e = (case e of ClientError \<Rightarrow> Some q | _ \<Rightarrow> None)"

definition except_ServerError :: "(ServerErrCode \<Rightarrow> 'a prog) \<Rightarrow> exn \<Rightarrow> 'a prog option" where
  "except_ServerError q e = (case e of ServerError code \<Rightarrow> Some (q code) | _ \<Rightarrow> None)"

definition lift :: "exn + 'a \<Rightarrow> 'a prog" where
  "lift r = (case r of Inl e \<Rightarrow> raise e | Inr x \<Rightarrow> ret x)"

definition ask ::
  "(world \<Rightarrow> event list \<Rightarrow> sdk_call \<Rightarrow> exn + 'a) \<Rightarrow> ('a \<Rightarrow> resp) \<Rightarrow> sdk_call \<Rightarrow> 'a prog" where
  "ask oracle wrap c w tr =
     (case oracle w tr c of
        Inl e \<Rightarrow> (tr @ [Call c (Inl e)], Raise e)
      | Inr v \<Rightarrow> (tr @ [Call c (Inr (wrap v))], Return v))"

definition sdk :: "sdk_call \<Rightarrow> unit prog" where
  "sdk = ask sdk_answer (\<lambda>_. Done)"

definition describe_table :: "string \<Rightarrow> string \<Rightarrow> TableState prog" where
  "describe_table db table_name = ask describe_table_answer TableDescription (DescribeTable db table_name)"

definition describe_index :: "table_ref \<Rightarrow> string \<Rightarrow> IndexState prog" where
  "describe_index table name = ask describe_index_answer IndexDescription (DescribeIndex table name)"

definition list_databases :: "string list prog" where
  "list_databases = ask list_databases_answer DatabaseList ListDatabases"

definition select :: "table_ref \<Rightarrow> marker \<Rightarrow> string list \<Rightarrow> nat \<Rightarrow> (bool \<times> marker) prog" where
  "select table mk projections lim =
     ask select_answer (\<lambda>(t, nm). SelectResult t nm) (Select table mk projections lim)"

definition iterator_next :: "string \<Rightarrow> Row list prog" where
  "iterator_next it = ask next_answer RowBatch (IteratorNext it)"

definition sleep :: "nat \<Rightarrow> unit prog" where
  "sleep secs w tr = (tr @ [Sleep secs], Return ())"

definition log :: "string \<Rightarrow> unit prog" where
  "log msg w tr = (tr @ [Log msg], Return ())"

text \<open>\<^verbatim>\<open>for x in xs: body\<close>\<close>

fun for_each :: "'a list \<Rightarrow> ('a \<Rightarrow> unit prog) \<Rightarrow> unit prog" where
  "for_each [] body = ret ()"
| "for_each (x # xs) body = seq (body x) (for_each xs body)"

text \<open>Reading a local variable: \<open>None\<close> is a variable that is not bound.\<close>

definition read_local :: "string \<Rightarrow> 'a option \<Rightarrow> 'a prog" where
  "read_local name v = (case v of None \<Rightarrow> raise (UnboundLocalError name) | Some x \<Rightarrow> ret x)"

subsection \<open>Python built-ins the script uses\<close>

text \<open>\<^verbatim>\<open>str(n)\<close> and \<^verbatim>\<open>bin(n)\<close> on integers, a slice \<^verbatim>\<open>xs[:d]\<close> and \<^verbatim>\<open>int(c)\<close> on one character.\<close>

fun dec_digits :: "nat \<Rightarrow> string" where
  "dec_digits n =
     (if n < 10 then [''0123456789'' ! n] else dec_digits (n div 10) @ [''0123456789'' ! (n mod 10)])"

declare dec_digits.simps [simp del]

definition str :: "int \<Rightarrow> string" where
  "str i = (if i < 0 then ''-'' @ dec_digits (nat (- i)) else dec_digits (nat i))"

fun bin_digits :: "nat \<Rightarrow> string" where
  "bin_digits n =
     (if n < 2 then [''01'' ! n] else bin_digits (n div 2) @ [''01'' ! (n mod 2)])"

declare bin_digits.simps [simp del]

definition bin :: "int \<Rightarrow> string" where
  "bin i = (if i < 0 then ''-0b'' @ bin_digits (nat (- i)) else ''0b'' @ bin_digits (nat i))"

definition slice_to :: "'a list \<Rightarrow> int \<Rightarrow> 'a list" where
  "slice_to xs d = (if 0 \<le> d then take (nat d) xs else take (nat (int (length xs) + d)) xs)"

definition int_of_char :: "char \<Rightarrow> exn + int" where
  "int_of_char c =
     (if c = CHR ''0'' then Inr 0 else if c = CHR ''1'' then Inr 1
      else if c = CHR ''2'' then Inr 2 else if c = CHR ''3'' then Inr 3
      else if c = CHR ''4'' then Inr 4 else if c = CHR ''5'' then Inr 5
      else if c = CHR ''6'' then Inr 6 else if c = CHR ''7'' then Inr 7
      else if c = CHR ''8'' then Inr 8 else if c = CHR ''9'' then Inr 9
      else Inl ValueError)"

text \<open>A list comprehension whose element expression may raise: the first failure wins.\<close>

fun comprehension :: "('a \<Rightarrow> exn + 'b) \<Rightarrow> 'a list \<Rightarrow> exn + 'b list" where
  "comprehension f [] = Inr []"
| "comprehension f (x # xs) =
     (case f x of
        Inl e \<Rightarrow> Inl e
      | Inr y \<Rightarrow> (case comprehension f xs of Inl e \<Rightarrow> Inl e | Inr ys \<Rightarrow> Inr (y # ys)))"

subsection \<open>\<^verbatim>\<open>num_to_binary_list\<close> (local function of \<^verbatim>\<open>binary_vector_usage_example\<close>)\<close>

definition num_to_binary_list :: "int \<Rightarrow> int \<Rightarrow> exn + int list" where
  "num_to_binary_list num dim =
     (let binary_str = drop 2 (bin num) in
      case comprehension int_of_char binary_str of
        Inl e \<Rightarrow> Inl e
      | Inr binary_list \<Rightarrow>
          (let binary_list =
                 (if int (length binary_list) > dim then slice_to binary_list dim
                  else if int (length binary_list) < dim
                    then replicate (nat (dim - int (length binary_list))) 0 @ binary_list
                  else binary_list)
           in if int (length binary_list) = dim then Inr binary_list else Inl AssertionError))"

subsection \<open>The methods of \<^verbatim>\<open>TestMochow\<close>\<close>

text \<open>
  \<open>self._vector_index_type\<close> is the parameter \<open>vector_index_type\<close> of the methods that read
  it; \<open>self._client\<close> is the world. A method with an unbounded loop takes the number \<open>n\<close> of
  iterations each of its loops may run before the run is cut off as \<open>Running\<close>.
\<close>

definition book :: string where "book = ''book''"

definition book_segments :: string where "book_segments = ''book_segments''"

definition clear :: "unit prog" where
  "clear =
     bind (try_except
             (bind (sdk (Database book)) (\<lambda>_. ret (Some book)))
             (except_ClientError (seq (log ''database book not found.'') (ret None))))
       (\<lambda>db. case db of
          Some db \<Rightarrow>
            seq (try_except
                   (sdk (DropTable db book_segments))
                   (except_ServerError (\<lambda>code.
                      seq (log ''drop table error'')
                        (if code = TABLE_NOT_EXIST then ret () else ret ()))))
              (seq (sleep 10) (sdk (DropDatabase db)))
        | None \<Rightarrow> ret ())"

text \<open>The loop of lines 146 to 150; it returns the table description that ended it.\<close>

primrec wait_table_normal :: "string \<Rightarrow> string \<Rightarrow> nat \<Rightarrow> TableState prog" where
  "wait_table_normal db table_name 0 = running"
| "wait_table_normal db table_name (Suc n) =
     seq (sleep 2)
       (bind (describe_table db table_name) (\<lambda>table_state.
          if table_state = TableState_NORMAL then ret table_state
          else wait_table_normal db table_name n))"

definition book_fields :: "Field list" where
  "book_fields =
     [Field ''id'' STRING [primary_key True, partition_key True, auto_increment False, not_null True],
      Field ''bookName'' STRING [not_null True],
      Field ''author'' STRING [],
      Field ''page'' UINT32 [],
      Field ''segment'' TEXT [],
      Field ''vector'' FLOAT_VECTOR [not_null True, dimension 4],
      Field ''arr_field'' ARRAY [element_type ElementType_STRING, not_null True],
      Field ''json_field'' JSON []]"

definition create_db_and_table :: "IndexType \<Rightarrow> nat \<Rightarrow> unit prog" where
  "create_db_and_table vector_index_type n =
     (let database = book; table_name = book_segments in
      bind (sdk (CreateDatabase database)) (\<lambda>_.
      bind list_databases (\<lambda>database_list.
      seq (for_each database_list (\<lambda>db_item. log ''database''))
      (let fields = book_fields; indexes = [] in
       bind (if vector_index_type = HNSW then
               ret (indexes @ [VectorIndex ''vector_idx'' HNSW ''vector'' L2
                                 (Some (HNSWParams 32 200)) None])
             else if vector_index_type = HNSWPQ then
               ret (indexes @ [VectorIndex ''vector_idx'' HNSWPQ ''vector'' L2
                                 (Some (HNSWPQParams 16 200 4 ''1.0'')) None])
             else if vector_index_type = PUCK then
               ret (indexes @ [VectorIndex ''vector_idx'' PUCK ''vector'' L2
                                 (Some (PUCKParams 5 5)) None])
             else raise (Exception ''not support index type''))
         (\<lambda>indexes.
       let indexes = indexes @ [SecondaryIndex ''book_name_idx'' ''bookName''];
           indexes = indexes @ [FilteringIndex ''book_name_filtering_idx'' [''bookName'']];
           indexes = indexes @
             [InvertedIndex ''book_segment_inverted_idx'' [''segment'']
                (InvertedIndexParams CHINESE_ANALYZER COARSE_MODE True) [ANALYZED]]
       in
       seq (sdk (CreateTable database table_name 3 1 fields (Some indexes)))
      (bind (wait_table_normal database table_name n) (\<lambda>table.
       seq (sleep 10)
      (seq (log ''table'')
      (seq (sdk (ModifyTable database table_name ''0.1''))
      (seq (sleep 10)
           (log ''table'')))))))))))"

text \<open>The loop of lines 217 to 227.\<close>

function upsert_rows :: "int \<Rightarrow> Row list \<Rightarrow> Row list" where
  "upsert_rows i rows =
     (if i \<le> 100 then upsert_rows (i + 1) (rows @ [Row (str i) (BookVector i)]) else rows)"
  by pat_completeness auto
termination
  by (relation "measure (\<lambda>(i, rows). nat (101 - i))") auto

declare upsert_rows.simps [simp del]

definition upsert_data :: "unit prog" where
  "upsert_data =
     seq (sdk (Database book))
    (seq (sdk (Table book book_segments))
    (let rows = [Row ''0001'' (PlainVector [''1'', ''0.21'', ''0.213'', ''0'']),
                 Row ''0002'' (PlainVector [''2'', ''0.22'', ''0.213'', ''0'']),
                 Row ''0003'' (PlainVector [''3'', ''0.23'', ''0.213'', ''0'']),
                 Row ''0004'' (PlainVector [''4'', ''0.24'', ''0.213'', ''0'']),
                 Row ''0005'' (PlainVector [''5'', ''0.25'', ''0.213'', ''0''])];
         i = 6;
         rows = upsert_rows i rows
     in seq (sdk (Upsert (book, book_segments) rows))
            (sleep 10)))"

definition change_table_schema :: "unit prog" where
  "change_table_schema =
     seq (sdk (Database book))
    (seq (sdk (Table book book_segments))
    (let fields = [Field ''publisher'' STRING [], Field ''synopsis'' STRING []] in
     seq (sdk (AddFields (book, book_segments) fields))
         (log ''res'')))"

definition show_table_stats :: "unit prog" where
  "show_table_stats =
     seq (sdk (Database book))
    (seq (sdk (Table book book_segments))
    (seq (sdk (Stats (book, book_segments)))
         (log ''res'')))"

definition query_data :: "unit prog" where
  "query_data =
     seq (sdk (Database book))
    (seq (sdk (Table book book_segments))
    (seq (sdk (Query (book, book_segments) ''0001'' [''id'', ''bookName''] True))
         (log ''query res'')))"

definition batch_query_data :: "unit prog" where
  "batch_query_data =
     seq (sdk (Database book))
    (seq (sdk (Table book book_segments))
    (seq (sdk (BatchQuery (book, book_segments) [''0001'', ''0002'', ''1003'']
                 [''id'', ''bookName''] True))
         (log ''batch query res'')))"

text \<open>The loop of lines 280 to 284.\<close>

primrec wait_index_normal :: "table_ref \<Rightarrow> string \<Rightarrow> nat \<Rightarrow> IndexState prog" where
  "wait_index_normal table name 0 = running"
| "wait_index_normal table name (Suc n) =
     seq (sleep 2)
       (bind (describe_index table name) (\<lambda>index_state.
          if index_state = IndexState_NORMAL then ret index_state
          else wait_index_normal table name n))"

definition query_vector :: vector where
  "query_vector = FloatVector [''1'', ''0.21'', ''0.213'', ''0'']"

definition query_vector2 :: vector where
  "query_vector2 = FloatVector [''1'', ''0.32'', ''0.513'', ''0'']"

text \<open>
  \<open>request\<close> and \<open>config\<close> are local variables that only the branches of an \<^verbatim>\<open>if\<close>/\<^verbatim>\<open>elif\<close>
  without \<^verbatim>\<open>else\<close> assign: they are options, \<open>None\<close> while unbound, and every use reads
  them with \<open>read_local\<close>.
\<close>

definition vector_search :: "IndexType \<Rightarrow> nat \<Rightarrow> unit prog" where
  "vector_search vector_index_type n =
     (let table = (book, book_segments); request = None; config = None in
      seq (sdk (Database book))
     (seq (sdk (Table book book_segments))
     (seq (sdk (RebuildIndex table ''vector_idx''))
     (bind (wait_index_normal table ''vector_idx'' n) (\<lambda>index.
      let request =
            (if vector_index_type = HNSW \<or> vector_index_type = HNSWPQ then
               Some (VectorTopkSearchRequest ''vector'' query_vector (Some 10)
                       (Some san_guo_yan_yi) (Some (ef 200)))
             else if vector_index_type = PUCK then
               Some (VectorTopkSearchRequest ''vector'' query_vector (Some 5)
                       (Some san_guo_yan_yi) (Some (search_coarse_count 5)))
             else request)
      in
      bind (read_local ''request'' request) (\<lambda>request_value.
      seq (sdk (VectorSearch table request_value None))
     (seq (log ''topk search res'')
     (let request =
            (if vector_index_type = HNSW \<or> vector_index_type = HNSWPQ then
               Some (VectorRangeSearchRequest ''vector'' query_vector (0, 20) 10
                       (Some san_guo_yan_yi) (Some (ef 200)))
             else if vector_index_type = PUCK then
               Some (VectorRangeSearchRequest ''vector'' query_vector (0, 20) 5
                       None (Some (search_coarse_count 5)))
             else request)
      in
      bind (read_local ''request'' request) (\<lambda>request_value.
      seq (sdk (VectorSearch table request_value None))
     (seq (log ''range search res'')
     (let request =
            (if vector_index_type = HNSW \<or> vector_index_type = HNSWPQ then
               Some (VectorBatchSearchRequest ''vector'' [query_vector, query_vector2] 10
                       (Some san_guo_yan_yi) (Some (ef 200)))
             else if vector_index_type = PUCK then
               Some (VectorBatchSearchRequest ''vector'' [query_vector, query_vector2] 5
                       (Some san_guo_yan_yi) (Some (search_coarse_count 5)))
             else request)
      in
      bind (read_local ''request'' request) (\<lambda>request_value.
      seq (sdk (VectorSearch table request_value None))
     (seq (log ''batch search res'')
     (let config =
            (if vector_index_type = HNSW \<or> vector_index_type = HNSWPQ then Some (ef 200)
             else if vector_index_type = PUCK then Some (search_coarse_count 5)
             else config)
      in
      bind (read_local ''config'' config) (\<lambda>config_value.
      let requests =
            [VectorTopkSearchRequest ''vector'' query_vector (Some 10) None (Some config_value),
             VectorTopkSearchRequest ''vector'' query_vector (Some 10) None (Some config_value)];
          request = MultiVectorSearchRequest requests (RRFRank 60) 10 (Some san_guo_yan_yi)
      in
      seq (sdk (VectorSearch table request (Some [''id''])))
          (log ''multi vector search res''))))))))))))))))"

text \<open>The loops of lines 362 to 366 and 387 to 391.\<close>

primrec drain_iterator :: "string \<Rightarrow> nat \<Rightarrow> unit prog" where
  "drain_iterator it 0 = running"
| "drain_iterator it (Suc n) =
     bind (iterator_next it) (\<lambda>rows.
       if rows = [] then ret ()
       else seq (log ''rows'') (drain_iterator it n))"

definition search_iterator :: "nat \<Rightarrow> unit prog" where
  "search_iterator n =
     (let table = (book, book_segments) in
      seq (sdk (Database book))
     (seq (sdk (Table book book_segments))
     (seq (log ''Start search iterator for TopK search'')
     (let request = VectorTopkSearchRequest ''vector'' query_vector (Some 1000) None
                      (Some (ef 2000))
      in
      seq (sdk (SearchIterator ''iterator1'' table request 1000 10000))
     (seq (drain_iterator ''iterator1'' n)
     (seq (sdk (IteratorClose ''iterator1''))
     (seq (log ''Finish search iterator for TopK search'')
     (seq (log ''Start search iterator for multi-vector search'')
     (let requests =
            [VectorTopkSearchRequest ''vector'' query_vector (Some 1000) None (Some (ef 2000)),
             VectorTopkSearchRequest ''vector'' query_vector (Some 1000) None (Some (ef 2000))];
          request = MultiVectorSearchRequest requests (WeightedRank [''1.0'', ''1.0'']) 1000 None
      in
      seq (sdk (SearchIterator ''iterator2'' table request 1000 10000))
     (seq (drain_iterator ''iterator2'' n)
     (seq (sdk (IteratorClose ''iterator2''))
          (log ''Finish search iterator for multi-vector search''))))))))))))"

definition bm25_search :: "unit prog" where
  "bm25_search =
     seq (sdk (Database book))
    (seq (sdk (Table book book_segments))
    (let request = BM25SearchRequest ''book_segment_inverted_idx'' lv_bu (Some 10)
                     (Some san_guo_yan_yi)
     in
     seq (sdk (BM25Search (book, book_segments) request))
         (log ''BM25 search res'')))"

definition hybrid_search :: "IndexType \<Rightarrow> unit prog" where
  "hybrid_search vector_index_type =
     (let config = None in
      seq (sdk (Database book))
     (seq (sdk (Table book book_segments))
     (let config =
            (if vector_index_type = HNSW \<or> vector_index_type = HNSWPQ then Some (ef 200)
             else if vector_index_type = PUCK then Some (search_coarse_count 5)
             else config)
      in
      bind (read_local ''config'' config) (\<lambda>config_value.
      let vector_request =
            VectorTopkSearchRequest ''vector'' query_vector None None (Some config_value);
          bm25_request = BM25SearchRequest ''book_segment_inverted_idx'' lv_bu None None;
          hybrid_request =
            HybridSearchRequest vector_request ''0.4'' bm25_request ''0.6'' san_guo_yan_yi 15
      in
      seq (sdk (HybridSearch (book, book_segments) hybrid_request))
          (log ''hybrid search res'')))))"

text \<open>The loop of lines 441 to 449.\<close>

fun select_loop :: "table_ref \<Rightarrow> string list \<Rightarrow> nat \<Rightarrow> marker \<Rightarrow> unit prog" where
  "select_loop table projections 0 mk = running"
| "select_loop table projections (Suc n) mk =
     bind (select table mk projections 20) (\<lambda>res.
     seq (log ''res'')
       (if fst res = False then log ''select finished''
        else seq (log ''select next batch'') (select_loop table projections n (snd res))))"

definition select_data :: "nat \<Rightarrow> unit prog" where
  "select_data n =
     seq (sdk (Database book))
    (seq (sdk (Table book book_segments))
    (let projections = [''id'', ''bookName'', ''json_field''];
         select_finished = False;
         mk = None
     in select_loop (book, book_segments) projections n mk))"

definition update_data :: "unit prog" where
  "update_data =
     seq (sdk (Database book))
    (seq (sdk (Table book book_segments))
    (seq (sdk (Update (book, book_segments) ''0001''
                 [''bookName'', ''author'', ''page'', ''segment'']))
         (log ''res'')))"

definition delete_data :: "unit prog" where
  "delete_data =
     seq (sdk (Database book))
    (seq (sdk (Table book book_segments))
    (seq (sdk (Delete (book, book_segments) ''0001''))
         (log ''res'')))"

text \<open>
  The loop of lines 478 to 485. The body yields whether it reached \<^verbatim>\<open>break\<close>.
\<close>

primrec wait_index_dropped :: "table_ref \<Rightarrow> string \<Rightarrow> nat \<Rightarrow> unit prog" where
  "wait_index_dropped table name 0 = running"
| "wait_index_dropped table name (Suc n) =
     seq (sleep 2)
       (bind (try_except
                (bind (describe_index table name) (\<lambda>index. ret False))
                (except_ServerError (\<lambda>code.
                   seq (log ''code'') (ret (code = INDEX_NOT_EXIST)))))
          (\<lambda>break. if break then ret () else wait_index_dropped table name n))"

definition drop_and_create_vindex :: "IndexType \<Rightarrow> nat \<Rightarrow> unit prog" where
  "drop_and_create_vindex vector_index_type n =
     (let table = (book, book_segments) in
      seq (sdk (Database book))
     (seq (sdk (Table book book_segments))
     (seq (sdk (DropIndex table ''vector_idx''))
     (seq (wait_index_dropped table ''vector_idx'' n)
     (let indexes = [] in
      bind (if vector_index_type = HNSW then
              ret (indexes @ [VectorIndex ''vector_idx'' HNSW ''vector'' L2
                                (Some (HNSWParams 16 200)) (Some False)])
            else if vector_index_type = HNSWPQ then
              ret (indexes @ [VectorIndex ''vector_idx'' HNSWPQ ''vector'' L2
                                (Some (HNSWPQParams 16 200 4 ''1.0'')) None])
            else if vector_index_type = PUCK then
              ret (indexes @ [VectorIndex ''vector_idx'' PUCK ''vector'' L2
                                (Some (PUCKParams 5 5)) (Some False)])
            else raise (Exception ''not support index type''))
        (\<lambda>indexes.
      seq (sdk (CreateIndexes table indexes))
     (seq (sleep 1)
     (seq (sdk (ModifyIndex table ''vector_idx'' True ''2024-01-01 00:00:00''))
     (bind (describe_index table ''vector_idx'') (\<lambda>index.
           log ''index''))))))))))"

definition delete_and_drop :: "unit prog" where
  "delete_and_drop =
     seq (sdk (Database book))
    (seq (sdk (DropTable book book_segments))
    (seq (sleep 10)
    (seq (sdk (DropDatabase book))
         (sdk Close))))"

text \<open>
  The cleanup at the head of both usage examples (lines 537 to 548 and 582 to 593).
\<close>

definition drop_if_exists :: "string \<Rightarrow> string \<Rightarrow> unit prog" where
  "drop_if_exists database table_name =
     bind (try_except
             (bind (sdk (Database database)) (\<lambda>_. ret (Some database)))
             (except_ClientError (ret None)))
       (\<lambda>db. case db of
          Some db \<Rightarrow>
            seq (try_except
                   (sdk (DropTable db table_name))
                   (except_ServerError (\<lambda>code. ret ())))
              (seq (sleep 10) (sdk (DropDatabase db)))
        | None \<Rightarrow> ret ())"

text \<open>
  The rows of a \<^verbatim>\<open>for num in range(50)\<close> loop that appends one row per round; a round that
  raises ends the loop.
\<close>

definition binary_rows :: "int \<Rightarrow> exn + Row list" where
  "binary_rows vector_dimension =
     comprehension
       (\<lambda>num. case num_to_binary_list num vector_dimension of
                 Inl e \<Rightarrow> Inl e
               | Inr bits \<Rightarrow> Inr (Row (str num) (BinaryVector bits)))
       (map int [0..<50])"

definition binary_vector_usage_example :: "nat \<Rightarrow> unit prog" where
  "binary_vector_usage_example n =
     (let database = ''test_binary_vec''; table_name = ''test_binary_vec_tab'' in
      seq (drop_if_exists database table_name)
     (seq (sdk (CreateDatabase database))
     (let vector_dimension = 128;
          fields =
            [Field ''id'' STRING
               [primary_key True, partition_key True, auto_increment False, not_null True],
             Field ''vector'' BINARY_VECTOR [not_null True, dimension vector_dimension]]
      in
      seq (sdk (CreateTable database table_name 3 1 fields None))
     (seq (wait_table_normal database table_name n)
     (seq (sdk (Table database table_name))
     (bind (lift (binary_rows vector_dimension)) (\<lambda>rows.
      seq (sdk (Upsert (database, table_name) rows))
     (bind (lift (num_to_binary_list 123 vector_dimension)) (\<lambda>bits.
      let target = BinaryVector bits;
          request = VectorTopkSearchRequest ''vector'' target (Some 10) None None
      in
      seq (sdk (VectorSearch (database, table_name) request None))
          (log ''res''))))))))))"

definition sparse_vector :: vector where
  "sparse_vector = SparseFloatVector [(1, ''0.56465''), (100, ''0.2366456''), (10000, ''0.543111'')]"

definition sparse_vector_usage_example :: "nat \<Rightarrow> unit prog" where
  "sparse_vector_usage_example n =
     (let database = ''test_sparse_vec''; table_name = ''test_sparse_vec_tab'' in
      seq (drop_if_exists database table_name)
     (seq (sdk (CreateDatabase database))
     (let fields =
            [Field ''id'' STRING
               [primary_key True, partition_key True, auto_increment False, not_null True],
             Field ''vector'' SPARSE_FLOAT_VECTOR [not_null True]];
          indexes = [];
          indexes = indexes @
            [VectorIndex ''sparse_vector_idx'' SPARSE_OPTIMIZED_FLAT ''vector'' IP None None]
      in
      seq (sdk (CreateTable database table_name 3 1 fields (Some indexes)))
     (seq (wait_table_normal database table_name n)
     (let rows = [] in
      seq (sdk (Table database table_name))
     (let rows = rows @ map (\<lambda>num. Row (str num) sparse_vector) (map int [0..<50]) in
      seq (sdk (Upsert (database, table_name) rows))
     (let target = sparse_vector;
          request = VectorTopkSearchRequest ''vector'' target (Some 10) None None
      in
      seq (sdk (VectorSearch (database, table_name) request None))
          (log ''res''))))))))"

subsection \<open>The main program (lines 630 to 655)\<close>

definition main :: "nat \<Rightarrow> unit prog" where
  "main n =
     (let vector_index_type = HNSWPQ in
      seq clear
     (seq (create_db_and_table vector_index_type n)
     (seq upsert_data
     (seq (select_data n)
     (seq change_table_schema
     (seq show_table_stats
     (seq query_data
     (seq batch_query_data
     (seq (vector_search vector_index_type n)
     (seq (search_iterator n)
     (seq bm25_search
     (seq (hybrid_search vector_index_type)
     (seq update_data
     (seq delete_data
     (seq (drop_and_create_vindex vector_index_type n)
     (seq (binary_vector_usage_example n)
     (seq (sparse_vector_usage_example n)
          delete_and_drop)))))))))))))))))"

section \<open>Worlds and observations used by the theorems\<close>

subsection \<open>Concrete worlds\<close>

text \<open>
  \<open>quiet_world\<close> answers every call at once and without an exception: every table and index
  is \<open>NORMAL\<close>, no database is listed, \<^verbatim>\<open>select\<close> is not truncated and a search iterator has no
  rows.
\<close>

definition quiet_world :: world where
  "quiet_world =
     \<lparr>sdk_answer = (\<lambda>tr c. Inr ()),
      describe_table_answer = (\<lambda>tr c. Inr TableState_NORMAL),
      describe_index_answer = (\<lambda>tr c. Inr IndexState_NORMAL),
      list_databases_answer = (\<lambda>tr c. Inr []),
      select_answer = (\<lambda>tr c. Inr (False, None)),
      next_answer = (\<lambda>tr c. Inr [])\<rparr>"

text \<open>A world whose \<^verbatim>\<open>drop_table('book_segments')\<close> fails with a server error of a given code.\<close>

definition drop_table_fails :: "ServerErrCode \<Rightarrow> world" where
  "drop_table_fails code =
     quiet_world\<lparr>sdk_answer :=
       (\<lambda>tr c. if c = DropTable book book_segments then Inl (ServerError code) else Inr ())\<rparr>"

text \<open>
  \<open>friendly\<close> is a server that works and takes its time: a table is \<open>CREATING\<close> at the first
  poll after \<^verbatim>\<open>create_table\<close> and \<open>NORMAL\<close> from then on, an index is \<open>BUILDING\<close> at the first
  poll after \<^verbatim>\<open>rebuild_index\<close> and does not exist at the first poll after \<^verbatim>\<open>drop_index\<close>,
  \<^verbatim>\<open>select\<close> is truncated once, and a search iterator has one batch of one row.
\<close>

fun is_DropIndex :: "event \<Rightarrow> bool" where
  "is_DropIndex (Call (DropIndex t name) a) = True"
| "is_DropIndex e = False"

fun is_CreateTable_event :: "event \<Rightarrow> bool" where
  "is_CreateTable_event (Call (CreateTable db t r p fs ixs) a) = True"
| "is_CreateTable_event e = False"

fun is_RebuildIndex_event :: "event \<Rightarrow> bool" where
  "is_RebuildIndex_event (Call (RebuildIndex t name) a) = True"
| "is_RebuildIndex_event e = False"

fun is_SearchIterator :: "event \<Rightarrow> bool" where
  "is_SearchIterator (Call (SearchIterator it t r b s) a) = True"
| "is_SearchIterator e = False"

fun is_Table :: "event \<Rightarrow> bool" where
  "is_Table (Call (Table db t) a) = True"
| "is_Table e = False"

definition before_last :: "(event \<Rightarrow> bool) \<Rightarrow> event list \<Rightarrow> bool" where
  "before_last P tr = (case rev tr of e # e' # es \<Rightarrow> P e' | _ \<Rightarrow> False)"

definition last_is :: "(event \<Rightarrow> bool) \<Rightarrow> event list \<Rightarrow> bool" where
  "last_is P tr = (case rev tr of e # es \<Rightarrow> P e | _ \<Rightarrow> False)"

definition friendly :: world where
  "friendly =
     \<lparr>sdk_answer = (\<lambda>tr c. Inr ()),
      describe_table_answer =
        (\<lambda>tr c. if before_last is_CreateTable_event tr then Inr (OtherTableState ''CREATING'')
                 else Inr TableState_NORMAL),
      describe_index_answer =
        (\<lambda>tr c. if before_last is_DropIndex tr then Inl (ServerError INDEX_NOT_EXIST)
                 else if before_last is_RebuildIndex_event tr
                   then Inr (OtherIndexState ''BUILDING'')
                 else Inr IndexState_NORMAL),
      list_databases_answer = (\<lambda>tr c. Inr [book]),
      select_answer =
        (\<lambda>tr c. if last_is is_Table tr then Inr (True, Some 20) else Inr (False, None)),
      next_answer =
        (\<lambda>tr c. if last_is is_SearchIterator tr then Inr [Row ''6'' (BookVector 6)]
                 else Inr [])\<rparr>"

text \<open>
  A world in which no database exists, one in which no table exists, and one whose
  \<^verbatim>\<open>describe_index\<close> is out of order.
\<close>

definition no_database :: world where
  "no_database =
     quiet_world\<lparr>sdk_answer :=
       (\<lambda>tr c. case c of Database db \<Rightarrow> Inl ClientError | _ \<Rightarrow> Inr ())\<rparr>"

definition table_missing :: "ServerErrCode \<Rightarrow> world" where
  "table_missing code =
     quiet_world\<lparr>sdk_answer :=
       (\<lambda>tr c. case c of DropTable db t \<Rightarrow> Inl (ServerError code) | _ \<Rightarrow> Inr ())\<rparr>"

definition index_down :: world where
  "index_down = friendly\<lparr>describe_index_answer := (\<lambda>tr c. Inl (OtherError ''down''))\<rparr>"

text \<open>A world in which the connection is down: every plain SDK call raises an error of its own.\<close>

definition sdk_down :: world where
  "sdk_down = quiet_world\<lparr>sdk_answer := (\<lambda>tr c. Inl (OtherError ''down''))\<rparr>"

subsection \<open>Reading a binary list\<close>

text \<open>The number a list of bits stands for, most significant bit first.\<close>

definition binary_value :: "int list \<Rightarrow> int" where
  "binary_value bits = foldl (\<lambda>a b. 2 * a + b) 0 bits"

text \<open>The binary digits of a natural number as integers, without leading zeros.\<close>

fun bit_list :: "nat \<Rightarrow> int list" where
  "bit_list n = (if n < 2 then [int n] else bit_list (n div 2) @ [int (n mod 2)])"

declare bit_list.simps [simp del]

subsection \<open>Properties of runs\<close>

text \<open>
  How a run ended, without the value it returned; and what it means that every run of a
  program, from any trace and in any world, only appends events and that the appended events
  together with the way the run ended satisfy \<open>Q\<close>.
\<close>

datatype status = Returned | Raised exn | StillRunning

fun status_of :: "'a outcome \<Rightarrow> status" where
  "status_of (Return x) = Returned"
| "status_of (Raise e) = Raised e"
| "status_of Running = StillRunning"

definition obeys :: "(event list \<Rightarrow> status \<Rightarrow> bool) \<Rightarrow> 'a prog \<Rightarrow> bool" where
  "obeys Q p \<longleftrightarrow> (\<forall>w tr. \<exists>ext. fst (p w tr) = tr @ ext \<and> Q ext (status_of (snd (p w tr))))"

text \<open>
  A property of runs that sequencing keeps: it holds of the run that does nothing and
  returns, and of two runs in a row when the first returned.
\<close>

definition trace_property :: "(event list \<Rightarrow> status \<Rightarrow> bool) \<Rightarrow> bool" where
  "trace_property Q \<longleftrightarrow>
     Q [] Returned \<and> (\<forall>e1 e2 s. Q e1 Returned \<longrightarrow> Q e2 s \<longrightarrow> Q (e1 @ e2) s)"

text \<open>The events a run appends to the trace it starts from.\<close>

definition emitted :: "'a prog \<Rightarrow> world \<Rightarrow> event list \<Rightarrow> event list" where
  "emitted p w tr = drop (length tr) (fst (p w tr))"

text \<open>In world \<open>w\<close> the program returns from any trace, after appending exactly \<open>E\<close>.\<close>

definition steady :: "unit prog \<Rightarrow> world \<Rightarrow> event list \<Rightarrow> bool" where
  "steady p w E \<longleftrightarrow> (\<forall>tr. p w tr = (tr @ E, Return ()))"

text \<open>Every event of the run satisfies \<open>P\<close>.\<close>

definition every :: "(event \<Rightarrow> bool) \<Rightarrow> event list \<Rightarrow> status \<Rightarrow> bool" where
  "every P ext s \<longleftrightarrow> list_all P ext"

fun fixed_delay :: "event \<Rightarrow> bool" where
  "fixed_delay (Sleep d) = (d = 1 \<or> d = 2 \<or> d = 10)"
| "fixed_delay e = True"

text \<open>
  The \<^verbatim>\<open>except\<close> clauses of the script: \<^verbatim>\<open>except ClientError\<close> around the \<^verbatim>\<open>database\<close> lookup of
  the cleanups (lines 76 to 80, 538 to 541, 583 to 586), \<^verbatim>\<open>except ServerError\<close> around their
  \<^verbatim>\<open>drop_table\<close> (lines 83 to 88, 543 to 546, 588 to 591) and around the \<^verbatim>\<open>describe_index\<close> of
  the loop that waits for a dropped index (lines 480 to 485). \<open>catch_site c e\<close> says that a
  clause of the script is written around a call of the method of \<open>c\<close> for the class of \<open>e\<close>.
\<close>

fun catch_site :: "sdk_call \<Rightarrow> exn \<Rightarrow> bool" where
  "catch_site (Database db) ClientError = True"
| "catch_site (DropTable db t) (ServerError code) = True"
| "catch_site (DescribeIndex t name) (ServerError code) = True"
| "catch_site c e = False"

text \<open>
  An SDK call that failed anywhere else ends the run: the call is the last event and the run
  raises the exception of the call.
\<close>

definition uncaught_ends_run :: "event list \<Rightarrow> status \<Rightarrow> bool" where
  "uncaught_ends_run ext s \<longleftrightarrow>
     (\<forall>c e. Call c (Inl e) \<in> set ext \<longrightarrow> \<not> catch_site c e \<longrightarrow>
            s = Raised e \<and> last ext = Call c (Inl e))"

subsection \<open>The rounds of the wait loops\<close>

text \<open>
  The events of the rounds of a loop that waits for a table: each round is a sleep of
  2 seconds and a \<^verbatim>\<open>describe_table\<close> of that table; \<open>sts\<close> are the states that the rounds were
  answered. The same for the loop that waits for an index to be built.
\<close>

definition table_rounds :: "string \<Rightarrow> string \<Rightarrow> TableState list \<Rightarrow> event list" where
  "table_rounds db t sts =
     concat (map (\<lambda>s. [Sleep 2, Call (DescribeTable db t) (Inr (TableDescription s))]) sts)"

definition index_rounds :: "table_ref \<Rightarrow> string \<Rightarrow> IndexState list \<Rightarrow> event list" where
  "index_rounds t name sts =
     concat (map (\<lambda>s. [Sleep 2, Call (DescribeIndex t name) (Inr (IndexDescription s))]) sts)"

text \<open>
  A round of the loop that waits for a dropped index to be gone, answered by an index
  description or by a server error; after a server error the round logs the code.
\<close>

fun drop_round :: "table_ref \<Rightarrow> string \<Rightarrow> ServerErrCode + IndexState \<Rightarrow> event list" where
  "drop_round t name (Inl code) =
     [Sleep 2, Call (DescribeIndex t name) (Inl (ServerError code)), Log ''code'']"
| "drop_round t name (Inr s) = [Sleep 2, Call (DescribeIndex t name) (Inr (IndexDescription s))]"

definition drop_rounds ::
  "table_ref \<Rightarrow> string \<Rightarrow> (ServerErrCode + IndexState) list \<Rightarrow> event list" where
  "drop_rounds t name answers = concat (map (drop_round t name) answers)"

text \<open>
  The events of a search iterator that is read to its end: a \<^verbatim>\<open>next\<close> call and a log line for
  every batch of rows, and with \<open>drained\<close> the \<^verbatim>\<open>next\<close> call that returned the empty batch and
  the \<^verbatim>\<open>close\<close> call.
\<close>

definition batches :: "string \<Rightarrow> Row list list \<Rightarrow> event list" where
  "batches it bs =
     concat (map (\<lambda>rows. [Call (IteratorNext it) (Inr (RowBatch rows)), Log ''rows'']) bs)"

definition drained :: "string \<Rightarrow> Row list list \<Rightarrow> event list" where
  "drained it bs =
     batches it bs @
     [Call (IteratorNext it) (Inr (RowBatch [])), Call (IteratorClose it) (Inr Done)]"

subsection \<open>Waiting for \<open>NORMAL\<close>\<close>

text \<open>
  What may follow a call that opens a wait: rounds of a 2-second sleep and the call \<open>poll\<close>,
  and anything else only after a round whose answer is \<open>normal\<close>. A poll that raises is the
  last event. The trace may stop anywhere inside the rounds. After \<^verbatim>\<open>create_table\<close> the poll is
  the \<^verbatim>\<open>describe_table\<close> of the table created, after \<^verbatim>\<open>rebuild_index\<close> it is the
  \<^verbatim>\<open>describe_index\<close> of the index rebuilt.
\<close>

fun awaits :: "sdk_call \<Rightarrow> resp \<Rightarrow> event list \<Rightarrow> bool" where
  "awaits poll normal [] = True"
| "awaits poll normal [e] = (e = Sleep 2)"
| "awaits poll normal (e # Call c a # es) =
     (e = Sleep 2 \<and> c = poll \<and>
      (case a of
         Inl x \<Rightarrow> es = []
       | Inr r \<Rightarrow> r = normal \<or> awaits poll normal es))"
| "awaits poll normal (e # e' # es) = False"

definition awaits_table_normal :: "string \<Rightarrow> string \<Rightarrow> event list \<Rightarrow> bool" where
  "awaits_table_normal db t =
     awaits (DescribeTable db t) (TableDescription TableState_NORMAL)"

definition awaits_index_normal :: "table_ref \<Rightarrow> string \<Rightarrow> event list \<Rightarrow> bool" where
  "awaits_index_normal t name =
     awaits (DescribeIndex t name) (IndexDescription IndexState_NORMAL)"

text \<open>
  The same as an automaton that reads a trace from the left. \<open>awaited c\<close> is the poll and the
  answer that a wait opened by the call \<open>c\<close> waits for. The automaton is \<open>Due\<close> a sleep after
  the opening call and after a poll with another answer, \<open>Asleep\<close> after the sleep, and \<open>Idle\<close>
  outside a wait.
\<close>

fun awaited :: "sdk_call \<Rightarrow> (sdk_call \<times> resp) option" where
  "awaited (CreateTable db t r p fs ixs) =
     Some (DescribeTable db t, TableDescription TableState_NORMAL)"
| "awaited (RebuildIndex t name) =
     Some (DescribeIndex t name, IndexDescription IndexState_NORMAL)"
| "awaited c = None"

datatype wait_state = Idle | Due sdk_call | Asleep sdk_call | Ended | Bad

fun wait_step :: "wait_state \<Rightarrow> event \<Rightarrow> wait_state" where
  "wait_step Idle (Call c a) =
     (if awaited c = None then Idle else (case a of Inl x \<Rightarrow> Ended | Inr r \<Rightarrow> Due c))"
| "wait_step Idle e = Idle"
| "wait_step (Due opener) e = (if e = Sleep 2 then Asleep opener else Bad)"
| "wait_step (Asleep opener) (Call c a) =
     (if Some c = map_option fst (awaited opener) then
        (case a of
           Inl x \<Rightarrow> Ended
         | Inr r \<Rightarrow> if Some r = map_option snd (awaited opener) then Idle else Due opener)
      else Bad)"
| "wait_step (Asleep opener) e = Bad"
| "wait_step Ended e = Bad"
| "wait_step Bad e = Bad"

definition waits_well :: "event list \<Rightarrow> status \<Rightarrow> bool" where
  "waits_well ext s \<longleftrightarrow>
     foldl wait_step Idle ext \<noteq> Bad \<and> (s = Returned \<longrightarrow> foldl wait_step Idle ext = Idle)"

subsection \<open>The poll interval\<close>

text \<open>
  A \<^verbatim>\<open>describe_table\<close> comes right after a 2-second sleep, and so does a \<^verbatim>\<open>describe_index\<close>
  unless it comes right after \<^verbatim>\<open>modify_index\<close> (line 506, which polls nothing). \<open>polls_after\<close>
  checks a trace against the event before it.
\<close>

fun is_ModifyIndex :: "event \<Rightarrow> bool" where
  "is_ModifyIndex (Call (ModifyIndex t name b s) a) = True"
| "is_ModifyIndex e = False"

fun poll_allowed :: "event option \<Rightarrow> event \<Rightarrow> bool" where
  "poll_allowed prev (Call (DescribeTable db t) a) = (prev = Some (Sleep 2))"
| "poll_allowed prev (Call (DescribeIndex t name) a) =
     (prev = Some (Sleep 2) \<or> (case prev of Some e \<Rightarrow> is_ModifyIndex e | None \<Rightarrow> False))"
| "poll_allowed prev e = True"

fun polls_after :: "event option \<Rightarrow> event list \<Rightarrow> bool" where
  "polls_after prev [] = True"
| "polls_after prev (e # es) = (poll_allowed prev e \<and> polls_after (Some e) es)"

definition polls_spaced :: "event list \<Rightarrow> status \<Rightarrow> bool" where
  "polls_spaced ext s \<longleftrightarrow> polls_after None ext"

text \<open>
  The last SDK call of a trace together with the seconds slept since that call; \<open>None\<close> while
  the trace has no call.
\<close>

fun since_step :: "(sdk_call \<times> nat) option \<Rightarrow> event \<Rightarrow> (sdk_call \<times> nat) option" where
  "since_step st (Call c a) = Some (c, 0)"
| "since_step st (Sleep d) = map_option (\<lambda>(c, s). (c, s + d)) st"
| "since_step st (Log msg) = st"

definition last_call_and_sleep :: "event list \<Rightarrow> (sdk_call \<times> nat) option" where
  "last_call_and_sleep tr = foldl since_step None tr"

text \<open>
  A \<^verbatim>\<open>describe_table\<close> is called when exactly 2 seconds have been slept since the SDK call
  before it, and so is a \<^verbatim>\<open>describe_index\<close>, unless it comes right after \<^verbatim>\<open>modify_index\<close>
  with no sleep at all (line 506). \<open>spaced\<close> checks the calls of a trace, from the left.
\<close>

fun modifies_index :: "sdk_call \<Rightarrow> bool" where
  "modifies_index (ModifyIndex t name b s) = True"
| "modifies_index c = False"

fun poll_ok :: "(sdk_call \<times> nat) option \<Rightarrow> sdk_call \<Rightarrow> bool" where
  "poll_ok st (DescribeTable db t) = (case st of Some (c, s) \<Rightarrow> s = 2 | None \<Rightarrow> False)"
| "poll_ok st (DescribeIndex t name) =
     (case st of Some (c, s) \<Rightarrow> s = 2 \<or> (s = 0 \<and> modifies_index c) | None \<Rightarrow> False)"
| "poll_ok st c = True"

fun spaced :: "(sdk_call \<times> nat) option \<Rightarrow> event list \<Rightarrow> bool" where
  "spaced st [] = True"
| "spaced st (Call c a # es) = (poll_ok st c \<and> spaced (Some (c, 0)) es)"
| "spaced st (e # es) = spaced (since_step st e) es"

definition polls_two_apart :: "event list \<Rightarrow> status \<Rightarrow> bool" where
  "polls_two_apart ext s \<longleftrightarrow> spaced None ext"

subsection \<open>Calls of a trace\<close>

fun calls :: "event list \<Rightarrow> sdk_call list" where
  "calls [] = []"
| "calls (Call c a # es) = c # calls es"
| "calls (e # es) = calls es"

text \<open>The name of the SDK method behind a call.\<close>

fun sdk_method :: "sdk_call \<Rightarrow> string" where
  "sdk_method (Database db) = ''database''"
| "sdk_method (CreateDatabase db) = ''create_database''"
| "sdk_method ListDatabases = ''list_databases''"
| "sdk_method Close = ''close''"
| "sdk_method (DropDatabase db) = ''drop_database''"
| "sdk_method (DropTable db t) = ''drop_table''"
| "sdk_method (CreateTable db t r p fs ixs) = ''create_table''"
| "sdk_method (DescribeTable db t) = ''describe_table''"
| "sdk_method (ModifyTable db t g) = ''modify_table''"
| "sdk_method (Table db t) = ''table''"
| "sdk_method (Upsert t rows) = ''upsert''"
| "sdk_method (AddFields t fs) = ''add_fields''"
| "sdk_method (Stats t) = ''stats''"
| "sdk_method (Query t k pr v) = ''query''"
| "sdk_method (BatchQuery t ks pr v) = ''batch_query''"
| "sdk_method (Select t mk pr lim) = ''select''"
| "sdk_method (Update t k fs) = ''update''"
| "sdk_method (Delete t k) = ''delete''"
| "sdk_method (RebuildIndex t name) = ''rebuild_index''"
| "sdk_method (DescribeIndex t name) = ''describe_index''"
| "sdk_method (DropIndex t name) = ''drop_index''"
| "sdk_method (CreateIndexes t ixs) = ''create_indexes''"
| "sdk_method (ModifyIndex t name b s) = ''modify_index''"
| "sdk_method (VectorSearch t r pr) = ''vector_search''"
| "sdk_method (BM25Search t r) = ''bm25_search''"
| "sdk_method (HybridSearch t r) = ''hybrid_search''"
| "sdk_method (SearchIterator it t r b s) = ''search_iterator''"
| "sdk_method (IteratorNext it) = ''next''"
| "sdk_method (IteratorClose it) = ''close''"

text \<open>
  A run that returns has made calls that, seen through \<open>f\<close>, hold the list \<open>L\<close> in this order
  (with other calls before, between and after).
\<close>

definition visits :: "(sdk_call \<Rightarrow> 'b) \<Rightarrow> 'b list \<Rightarrow> event list \<Rightarrow> status \<Rightarrow> bool" where
  "visits f L ext s \<longleftrightarrow> (s = Returned \<longrightarrow> subseq L (map f (calls ext)))"

text \<open>The search request classes of the SDK, and the one a search call carries.\<close>

datatype search_mode = TopK | Range | Batch | MultiVector | BM25 | Hybrid

fun mode_of :: "sdk_call \<Rightarrow> search_mode option" where
  "mode_of (VectorSearch t (VectorTopkSearchRequest fld v lim fl cfg) pr) = Some TopK"
| "mode_of (VectorSearch t (VectorRangeSearchRequest fld v rng lim fl cfg) pr) = Some Range"
| "mode_of (VectorSearch t (VectorBatchSearchRequest fld vs lim fl cfg) pr) = Some Batch"
| "mode_of (VectorSearch t (MultiVectorSearchRequest rs rk lim fl) pr) = Some MultiVector"
| "mode_of (BM25Search t r) = Some BM25"
| "mode_of (HybridSearch t r) = Some Hybrid"
| "mode_of c = None"

text \<open>
  A call seen as its method name and its search mode, and the search modes that the calls
  of a trace issue, each once.
\<close>

definition landmark :: "sdk_call \<Rightarrow> string \<times> search_mode option" where
  "landmark c = (sdk_method c, mode_of c)"

definition modes_issued :: "event list \<Rightarrow> search_mode list" where
  "modes_issued T = remdups (List.map_filter mode_of (calls T))"

subsection \<open>Steps in a fixed order\<close>

text \<open>
  Running a list of steps one after another: a step starts from the trace that the step
  before has left when it returned, and the first step that does not return ends the run.
\<close>

fun in_order :: "unit prog list \<Rightarrow> unit prog" where
  "in_order [] w tr = (tr, Return ())"
| "in_order (p # ps) w tr =
     (case p w tr of
        (tr', Return u) \<Rightarrow> in_order ps w tr'
      | (tr', Raise e) \<Rightarrow> (tr', Raise e)
      | (tr', Running) \<Rightarrow> (tr', Running))"

subsection \<open>Calls a run must not make, and parts of methods\<close>

fun is_CreateIndexes_event :: "event \<Rightarrow> bool" where
  "is_CreateIndexes_event (Call (CreateIndexes t ixs) a) = True"
| "is_CreateIndexes_event e = False"

fun is_VectorSearch_event :: "event \<Rightarrow> bool" where
  "is_VectorSearch_event (Call (VectorSearch t r pr) a) = True"
| "is_VectorSearch_event e = False"

fun is_HybridSearch_event :: "event \<Rightarrow> bool" where
  "is_HybridSearch_event (Call (HybridSearch t r) a) = True"
| "is_HybridSearch_event e = False"

text \<open>
  The statements of \<^verbatim>\<open>drop_and_create_vindex\<close> up to the end of its wait loop (lines 475 to
  485), of \<^verbatim>\<open>vector_search\<close> up to the end of its wait loop (lines 276 to 284) and of
  \<^verbatim>\<open>hybrid_search\<close> before its first branch (lines 409 to 410).
\<close>

definition drop_index_and_wait :: "nat \<Rightarrow> unit prog" where
  "drop_index_and_wait n =
     seq (sdk (Database book))
    (seq (sdk (Table book book_segments))
    (seq (sdk (DropIndex (book, book_segments) ''vector_idx''))
         (wait_index_dropped (book, book_segments) ''vector_idx'' n)))"

definition rebuild_index_and_wait :: "nat \<Rightarrow> IndexState prog" where
  "rebuild_index_and_wait n =
     seq (sdk (Database book))
    (seq (sdk (Table book book_segments))
    (seq (sdk (RebuildIndex (book, book_segments) ''vector_idx''))
         (wait_index_normal (book, book_segments) ''vector_idx'' n)))"

definition open_book_segments :: "unit prog" where
  "open_book_segments = seq (sdk (Database book)) (sdk (Table book book_segments))"


text \<open>
  A run fails only by a failed SDK call: the exception it raises is the one that the call it
  made last raised.
\<close>

definition fails_only_by_sdk :: "event list \<Rightarrow> status \<Rightarrow> bool" where
  "fails_only_by_sdk ext s \<longleftrightarrow>
     (case s of Raised e \<Rightarrow> ext \<noteq> [] \<and> (case last ext of Call c a \<Rightarrow> a = Inl e | _ \<Rightarrow> False)
      | _ \<Rightarrow> True)"

text \<open>
  The vector indexes among \<open>ixs\<close> are exactly one, named \<open>vector_idx\<close>, of type \<open>ty\<close>, on field
  \<open>vector\<close>, with metric \<open>L2\<close>; and an event that creates indexes does so with such a list.
\<close>

definition one_vector_index :: "IndexType \<Rightarrow> Index list \<Rightarrow> bool" where
  "one_vector_index ty ixs \<longleftrightarrow>
     map (\<lambda>ix. (index_name ix, index_type ix, field ix, metric_type ix)) (filter is_VectorIndex ixs)
       = [(''vector_idx'', ty, ''vector'', L2)]"

fun creates_one_vector_index :: "IndexType \<Rightarrow> event \<Rightarrow> bool" where
  "creates_one_vector_index ty (Call (CreateTable db t r p fs ixs) a) =
     (case ixs of Some ixs \<Rightarrow> one_vector_index ty ixs | None \<Rightarrow> False)"
| "creates_one_vector_index ty (Call (CreateIndexes t ixs) a) = one_vector_index ty ixs"
| "creates_one_vector_index ty e = True"


section \<open>Running the combinators\<close>

lemmas prog_defs = ret_def raise_def running_def bind_def seq_def try_except_def lift_def ask_def
  sdk_def describe_table_def describe_index_def list_databases_def select_def iterator_next_def
  sleep_def log_def read_local_def except_ClientError_def except_ServerError_def

section \<open>\<^verbatim>\<open>num_to_binary_list\<close>\<close>

lemma comprehension_append:
  "comprehension f (xs @ ys) =
     (case comprehension f xs of Inl e \<Rightarrow> Inl e
      | Inr us \<Rightarrow> (case comprehension f ys of Inl e \<Rightarrow> Inl e | Inr vs \<Rightarrow> Inr (us @ vs)))"
  by (induction xs) (auto split: sum.splits)

lemma int_of_char_bit: "b < 2 \<Longrightarrow> int_of_char (''01'' ! b) = Inr (int b)"
  by (cases b) (auto simp: int_of_char_def less_Suc_eq)

lemma comprehension_bin_digits: "comprehension int_of_char (bin_digits n) = Inr (bit_list n)"
proof (induction n rule: bin_digits.induct)
  case (1 n)
  show ?case
  proof (cases "n < 2")
    case True
    then show ?thesis
      by (subst bin_digits.simps, subst bit_list.simps) (simp add: int_of_char_bit)
  next
    case False
    with 1 show ?thesis
      by (subst bin_digits.simps, subst bit_list.simps)
         (simp add: comprehension_append int_of_char_bit)
  qed
qed

lemma bit_list_not_Nil: "bit_list n \<noteq> []"
  by (subst bit_list.simps) simp

lemma set_bit_list: "set (bit_list n) \<subseteq> {0, 1}"
proof (induction n rule: bit_list.induct)
  case (1 n)
  show ?case
  proof (cases "n < 2")
    case True
    then show ?thesis by (subst bit_list.simps) (auto simp: less_Suc_eq numeral_2_eq_2)
  next
    case False
    with 1 show ?thesis by (subst bit_list.simps) auto
  qed
qed

lemma binary_value_snoc: "binary_value (xs @ [b]) = 2 * binary_value xs + b"
  by (simp add: binary_value_def)

lemma binary_value_bit_list: "binary_value (bit_list n) = int n"
proof (induction n rule: bit_list.induct)
  case (1 n)
  show ?case
  proof (cases "n < 2")
    case True
    then show ?thesis by (subst bit_list.simps) (simp add: binary_value_def)
  next
    case False
    with 1 have "binary_value (bit_list (n div 2)) = int (n div 2)" by simp
    with False show ?thesis
      by (subst bit_list.simps) (simp add: binary_value_snoc zdiv_int zmod_int)
  qed
qed

lemma bit_list_upper: "n < 2 ^ length (bit_list n)"
proof (induction n rule: bit_list.induct)
  case (1 n)
  show ?case
  proof (cases "n < 2")
    case True
    then show ?thesis by (subst bit_list.simps) simp
  next
    case False
    with 1 have "n div 2 < 2 ^ length (bit_list (n div 2))" by simp
    then have "n < 2 * 2 ^ length (bit_list (n div 2))" by linarith
    with False show ?thesis by (subst bit_list.simps) simp
  qed
qed

lemma bit_list_lower: "0 < n \<Longrightarrow> 2 ^ (length (bit_list n) - 1) \<le> n"
proof (induction n rule: bit_list.induct)
  case (1 n)
  show ?case
  proof (cases "n < 2")
    case True
    with 1(2) show ?thesis by (subst bit_list.simps) simp
  next
    case False
    then have pos: "0 < n div 2" by simp
    with 1 False have "2 ^ (length (bit_list (n div 2)) - 1) \<le> n div 2" by simp
    then have "2 * 2 ^ (length (bit_list (n div 2)) - 1) \<le> n" by linarith
    moreover have "length (bit_list (n div 2)) \<noteq> 0" using bit_list_not_Nil by simp
    ultimately have "2 ^ length (bit_list (n div 2)) \<le> n"
      by (metis One_nat_def Suc_pred length_greater_0_conv bit_list_not_Nil power_Suc)
    with False show ?thesis by (subst bit_list.simps) simp
  qed
qed

lemma take_bit_list:
  "1 \<le> d \<Longrightarrow> d \<le> length (bit_list n) \<Longrightarrow>
   take d (bit_list n) = bit_list (n div 2 ^ (length (bit_list n) - d))"
proof (induction n rule: bit_list.induct)
  case (1 n)
  show ?case
  proof (cases "n < 2")
    case True
    then have "bit_list n = [int n]" by (subst bit_list.simps) simp
    with 1(2,3) show ?thesis by simp
  next
    case False
    then have eq: "bit_list n = bit_list (n div 2) @ [int (n mod 2)]"
      by (subst bit_list.simps) simp
    show ?thesis
    proof (cases "d = length (bit_list n)")
      case True
      then show ?thesis by simp
    next
      case neq: False
      with 1(3) eq have le: "d \<le> length (bit_list (n div 2))" by simp
      with 1(1) [OF False 1(2)] have
        "take d (bit_list (n div 2)) =
           bit_list (n div 2 div 2 ^ (length (bit_list (n div 2)) - d))" by simp
      moreover have "n div 2 div 2 ^ (length (bit_list (n div 2)) - d)
                     = n div 2 ^ (length (bit_list n) - d)"
        using le by (simp add: eq div_mult2_eq Suc_diff_le)
      ultimately show ?thesis using le by (simp add: eq)
    qed
  qed
qed

lemma binary_value_replicate: "binary_value (replicate k 0 @ xs) = binary_value xs"
  by (induction k) (simp_all add: binary_value_def)

lemma num_to_binary_list_nonneg:
  assumes "0 \<le> num"
  shows "num_to_binary_list num dim =
    (let bl = bit_list (nat num);
         bl' = (if int (length bl) > dim then slice_to bl dim
                else if int (length bl) < dim then replicate (nat (dim - int (length bl))) 0 @ bl
                else bl)
     in if int (length bl') = dim then Inr bl' else Inl AssertionError)"
  using assms by (simp add: num_to_binary_list_def bin_def comprehension_bin_digits Let_def)

text \<open>
  Claim C2. For \<open>num \<ge> 0\<close> and \<open>dim \<ge> 1\<close>, \<^verbatim>\<open>num_to_binary_list(num, dim)\<close> returns (so the
  assertion in it holds) a list of exactly \<open>dim\<close> elements, each 0 or 1. When \<open>num < 2 ^ dim\<close>
  the list read as a binary number, most significant bit first, is \<open>num\<close>: it is the binary
  representation of \<open>num\<close> padded with zeros on the left. When \<open>num \<ge> 2 ^ dim\<close>, \<open>num\<close> has
  \<open>L > dim\<close> binary digits and the list is the number \<open>num div 2 ^ (L - dim)\<close>: the \<open>dim\<close> most
  significant bits of \<open>num\<close>, the \<open>L - dim\<close> low-order bits dropped.
\<close>

theorem num_to_binary_list_correct:
  assumes "0 \<le> num" and "1 \<le> dim"
  shows "\<exists>bits. num_to_binary_list num dim = Inr bits
           \<and> int (length bits) = dim
           \<and> set bits \<subseteq> {0, 1}
           \<and> (num < 2 ^ nat dim \<longrightarrow> binary_value bits = num)
           \<and> (2 ^ nat dim \<le> num \<longrightarrow>
                (\<exists>L. 2 ^ (L - 1) \<le> num \<and> num < 2 ^ L \<and> nat dim < L
                     \<and> binary_value bits = num div 2 ^ (L - nat dim)))"
proof -
  define n where "n = nat num"
  define L where "L = length (bit_list n)"
  define d where "d = nat dim"
  have num: "num = int n" and dim: "dim = int d" and d1: "1 \<le> d"
    using assms by (simp_all add: n_def d_def)
  have L1: "1 \<le> L" using bit_list_not_Nil [of n] by (cases "bit_list n") (simp_all add: L_def)
  have up: "n < 2 ^ L" unfolding L_def by (rule bit_list_upper)
  consider (long) "d < L" | (short) "L < d" | (same) "L = d" by linarith
  then show ?thesis
  proof cases
    case long
    have npos: "0 < n"
    proof (rule ccontr)
      assume "\<not> 0 < n"
      then have "bit_list n = [0]" by (subst bit_list.simps) simp
      with long d1 show False by (simp add: L_def)
    qed
    have low: "2 ^ (L - 1) \<le> n" unfolding L_def by (rule bit_list_lower [OF npos])
    have "(2::nat) ^ d \<le> 2 ^ (L - 1)" using long by (intro power_increasing) auto
    with low have ge: "2 ^ d \<le> n" by linarith
    have res: "num_to_binary_list num dim = Inr (take d (bit_list n))"
      using long d1 assms
      by (simp add: num_to_binary_list_nonneg slice_to_def Let_def n_def [symmetric] L_def [symmetric] dim)
    have tk: "take d (bit_list n) = bit_list (n div 2 ^ (L - d))"
      unfolding L_def using take_bit_list [of d n] d1 long by (simp add: L_def)
    have val: "binary_value (take d (bit_list n)) = int (n div 2 ^ (L - d))"
      by (simp add: tk binary_value_bit_list)
    have sub: "set (take d (bit_list n)) \<subseteq> {0, 1}"
      using set_bit_list [of n] set_take_subset [of d "bit_list n"] by blast
    have len: "int (length (take d (bit_list n))) = dim" using long by (simp add: dim L_def)
    have notlt: "\<not> num < 2 ^ nat dim" using ge
      by (simp add: num d_def [symmetric])
    have ex: "\<exists>L. 2 ^ (L - 1) \<le> num \<and> num < 2 ^ L \<and> nat dim < L
                \<and> binary_value (take d (bit_list n)) = num div 2 ^ (L - nat dim)"
      apply (rule exI [of _ L])
      using low up long val
      by (simp add: num d_def [symmetric] zdiv_int)
    show ?thesis using res len sub notlt ex by blast
  next
    case short
    have res: "num_to_binary_list num dim = Inr (replicate (d - L) 0 @ bit_list n)"
      using short assms
      by (simp add: num_to_binary_list_nonneg Let_def n_def [symmetric] L_def [symmetric] dim nat_diff_distrib' del: replicate_eq_replicate) 
    have "(2::nat) ^ L \<le> 2 ^ d" using short by (intro power_increasing) auto
    with up have lt: "n < 2 ^ d" by linarith
    have notge: "\<not> 2 ^ nat dim \<le> num" using lt
      by (simp add: num d_def [symmetric])
    have "int (length (replicate (d - L) (0::int) @ bit_list n)) = dim"
      using short by (simp add: dim L_def)
    moreover have "set (replicate (d - L) (0::int) @ bit_list n) \<subseteq> {0, 1}"
      using set_bit_list [of n] by auto
    moreover have "binary_value (replicate (d - L) 0 @ bit_list n) = num"
      by (simp add: binary_value_replicate binary_value_bit_list num)
    ultimately show ?thesis using res notge by blast
  next
    case same
    have res: "num_to_binary_list num dim = Inr (bit_list n)"
      using same assms
      by (simp add: num_to_binary_list_nonneg Let_def n_def [symmetric] L_def [symmetric] dim)
    have lt: "n < 2 ^ d" using up same by simp
    have notge: "\<not> 2 ^ nat dim \<le> num" using lt
      by (simp add: num d_def [symmetric])
    have "int (length (bit_list n)) = dim" using same by (simp add: dim L_def)
    moreover have "binary_value (bit_list n) = num"
      by (simp add: binary_value_bit_list num)
    ultimately show ?thesis using res notge set_bit_list [of n] by blast
  qed
qed

theorem num_to_binary_list_correct_witness:
  "(0::int) \<le> 1234 \<and> (1::int) \<le> 8
   \<and> (\<exists>bits. num_to_binary_list 1234 8 = Inr bits
           \<and> int (length bits) = 8
           \<and> set bits \<subseteq> {0, 1}
           \<and> ((1234::int) < 2 ^ nat 8 \<longrightarrow> binary_value bits = 1234)
           \<and> (2 ^ nat 8 \<le> (1234::int) \<longrightarrow>
                (\<exists>L. 2 ^ (L - 1) \<le> (1234::int) \<and> (1234::int) < 2 ^ L \<and> nat 8 < L
                     \<and> binary_value bits = 1234 div 2 ^ (L - nat 8))))"
proof -
  have h1: "(0::int) \<le> 1234" and h2: "(1::int) \<le> 8" by simp_all
  from num_to_binary_list_correct [OF h1 h2] show ?thesis by simp
qed

section \<open>Rules for properties of runs\<close>

named_theorems obeys_intros

lemma obeysI:
  assumes "\<And>w tr. \<exists>ext. fst (p w tr) = tr @ ext \<and> Q ext (status_of (snd (p w tr)))"
  shows "obeys Q p"
  using assms by (simp add: obeys_def)

lemma obeysD:
  assumes "obeys Q p"
  obtains ext where "fst (p w tr) = tr @ ext" and "Q ext (status_of (snd (p w tr)))"
  using assms unfolding obeys_def by blast

lemma trace_property_Nil: "trace_property Q \<Longrightarrow> Q [] Returned"
  by (simp add: trace_property_def)

lemma trace_property_append:
  "trace_property Q \<Longrightarrow> Q e1 Returned \<Longrightarrow> Q e2 s \<Longrightarrow> Q (e1 @ e2) s"
  unfolding trace_property_def by blast

lemma obeys_ret [obeys_intros]: "trace_property Q \<Longrightarrow> obeys Q (ret x)"
  by (simp add: obeys_def ret_def trace_property_Nil)

lemma obeys_raise [obeys_intros]: "Q [] (Raised e) \<Longrightarrow> obeys Q (raise e)"
  by (simp add: obeys_def raise_def)

lemma obeys_running [obeys_intros]: "Q [] StillRunning \<Longrightarrow> obeys Q running"
  by (simp add: obeys_def running_def)

lemma obeys_lift [obeys_intros]:
  "trace_property Q \<Longrightarrow> (\<And>e. Q [] (Raised e)) \<Longrightarrow> obeys Q (lift r)"
  by (cases r) (simp_all add: lift_def obeys_ret obeys_raise)

lemma obeys_read_local [obeys_intros]:
  "trace_property Q \<Longrightarrow> Q [] (Raised (UnboundLocalError name)) \<Longrightarrow>
   obeys Q (read_local name v)"
  by (cases v) (simp_all add: read_local_def obeys_ret obeys_raise)

lemma obeys_sleep [obeys_intros]: "Q [Sleep d] Returned \<Longrightarrow> obeys Q (sleep d)"
  by (simp add: obeys_def sleep_def)

lemma obeys_log [obeys_intros]: "Q [Log msg] Returned \<Longrightarrow> obeys Q (log msg)"
  by (simp add: obeys_def log_def)

lemma obeys_ask:
  assumes "\<And>e. Q [Call c (Inl e)] (Raised e)" and "\<And>v. Q [Call c (Inr (wrap v))] Returned"
  shows "obeys Q (ask oracle wrap c)"
  using assms by (auto simp: obeys_def ask_def split: sum.splits)

lemma obeys_sdk [obeys_intros]:
  assumes "\<And>e. Q [Call c (Inl e)] (Raised e)" and "Q [Call c (Inr Done)] Returned"
  shows "obeys Q (sdk c)"
  unfolding sdk_def using assms by (intro obeys_ask)

lemma obeys_describe_table [obeys_intros]:
  assumes "\<And>e. Q [Call (DescribeTable db t) (Inl e)] (Raised e)"
    and "\<And>v. Q [Call (DescribeTable db t) (Inr (TableDescription v))] Returned"
  shows "obeys Q (describe_table db t)"
  unfolding describe_table_def using assms by (intro obeys_ask)

lemma obeys_describe_index [obeys_intros]:
  assumes "\<And>e. Q [Call (DescribeIndex t name) (Inl e)] (Raised e)"
    and "\<And>v. Q [Call (DescribeIndex t name) (Inr (IndexDescription v))] Returned"
  shows "obeys Q (describe_index t name)"
  unfolding describe_index_def using assms by (intro obeys_ask)

lemma obeys_list_databases [obeys_intros]:
  assumes "\<And>e. Q [Call ListDatabases (Inl e)] (Raised e)"
    and "\<And>v. Q [Call ListDatabases (Inr (DatabaseList v))] Returned"
  shows "obeys Q list_databases"
  unfolding list_databases_def using assms by (intro obeys_ask)

lemma obeys_select [obeys_intros]:
  assumes "\<And>e. Q [Call (Select t mk pr lim) (Inl e)] (Raised e)"
    and "\<And>b nm. Q [Call (Select t mk pr lim) (Inr (SelectResult b nm))] Returned"
  shows "obeys Q (select t mk pr lim)"
  unfolding select_def using assms by (intro obeys_ask) auto

lemma obeys_iterator_next [obeys_intros]:
  assumes "\<And>e. Q [Call (IteratorNext it) (Inl e)] (Raised e)"
    and "\<And>v. Q [Call (IteratorNext it) (Inr (RowBatch v))] Returned"
  shows "obeys Q (iterator_next it)"
  unfolding iterator_next_def using assms by (intro obeys_ask)

lemma obeys_bind [obeys_intros]:
  assumes Q: "trace_property Q" and p: "obeys Q p" and f: "\<And>x. obeys Q (f x)"
  shows "obeys Q (bind p f)"
proof (rule obeysI)
  fix w tr
  from p obtain e1 where e1: "fst (p w tr) = tr @ e1" "Q e1 (status_of (snd (p w tr)))"
    by (rule obeysD)
  show "\<exists>ext. fst (bind p f w tr) = tr @ ext \<and> Q ext (status_of (snd (bind p f w tr)))"
  proof (cases "snd (p w tr)")
    case (Return x)
    from f [of x] obtain e2 where
      e2: "fst (f x w (tr @ e1)) = (tr @ e1) @ e2" "Q e2 (status_of (snd (f x w (tr @ e1))))"
      by (rule obeysD)
    have "bind p f w tr = f x w (tr @ e1)"
      using Return e1(1) by (cases "p w tr") (simp add: bind_def)
    moreover have "Q (e1 @ e2) (status_of (snd (f x w (tr @ e1))))"
      using Q e1(2) e2(2) Return by (auto intro: trace_property_append)
    ultimately show ?thesis using e2(1) by auto
  next
    case (Raise e)
    then have "bind p f w tr = (tr @ e1, Raise e)"
      using e1(1) by (cases "p w tr") (simp add: bind_def)
    then show ?thesis using e1(2) Raise by auto
  next
    case Running
    then have "bind p f w tr = (tr @ e1, Running)"
      using e1(1) by (cases "p w tr") (simp add: bind_def)
    then show ?thesis using e1(2) Running by auto
  qed
qed

lemma obeys_seq [obeys_intros]:
  "trace_property Q \<Longrightarrow> obeys Q p \<Longrightarrow> obeys Q q \<Longrightarrow> obeys Q (seq p q)"
  unfolding seq_def by (rule obeys_bind)

lemma obeys_try_except:
  assumes Q: "trace_property Q" and p: "obeys Qp p"
    and pass: "\<And>ext s. Qp ext s \<Longrightarrow> (\<forall>e. s = Raised e \<longrightarrow> h e = None) \<Longrightarrow> Q ext s"
    and handle: "\<And>ext e q. Qp ext (Raised e) \<Longrightarrow> h e = Some q \<Longrightarrow> Q ext Returned \<and> obeys Q q"
  shows "obeys Q (try_except p h)"
proof (rule obeysI)
  fix w tr
  from p obtain e1 where e1: "fst (p w tr) = tr @ e1" "Qp e1 (status_of (snd (p w tr)))"
    by (rule obeysD)
  show "\<exists>ext. fst (try_except p h w tr) = tr @ ext
              \<and> Q ext (status_of (snd (try_except p h w tr)))"
  proof (cases "snd (p w tr)")
    case (Return x)
    then have "try_except p h w tr = (tr @ e1, Return x)"
      using e1(1) by (cases "p w tr") (simp add: try_except_def)
    moreover have "Q e1 Returned" using pass [OF e1(2)] Return by simp
    ultimately show ?thesis by auto
  next
    case (Raise e)
    show ?thesis
    proof (cases "h e")
      case None
      then have "try_except p h w tr = (tr @ e1, Raise e)"
        using e1(1) Raise by (cases "p w tr") (simp add: try_except_def)
      moreover have "Q e1 (Raised e)" using pass [OF e1(2)] Raise None by simp
      ultimately show ?thesis by auto
    next
      case (Some q)
      from e1(2) Raise have "Qp e1 (Raised e)" by simp
      from handle [OF this Some] have r: "Q e1 Returned" and q: "obeys Q q" by simp_all
      from q obtain e2 where
        e2: "fst (q w (tr @ e1)) = (tr @ e1) @ e2" "Q e2 (status_of (snd (q w (tr @ e1))))"
        by (rule obeysD)
      have "try_except p h w tr = q w (tr @ e1)"
        using e1(1) Raise Some by (cases "p w tr") (simp add: try_except_def)
      moreover have "Q (e1 @ e2) (status_of (snd (q w (tr @ e1))))"
        using Q r e2(2) by (rule trace_property_append)
      ultimately show ?thesis using e2(1) by auto
    qed
  next
    case Running
    then have "try_except p h w tr = (tr @ e1, Running)"
      using e1(1) by (cases "p w tr") (simp add: try_except_def)
    moreover have "Q e1 StillRunning" using pass [OF e1(2)] Running by simp
    ultimately show ?thesis by auto
  qed
qed

text \<open>The three shapes of \<^verbatim>\<open>try\<close> in the script.\<close>

lemma obeys_try_lookup [obeys_intros]:
  assumes Q: "trace_property Q" and ok: "Q [Call c (Inr Done)] Returned"
    and other: "\<And>e. e \<noteq> ClientError \<Longrightarrow> Q [Call c (Inl e)] (Raised e)"
    and handled: "Q [Call c (Inl ClientError)] Returned"
    and q: "obeys Q q"
  shows "obeys Q (try_except (bind (sdk c) (\<lambda>_. ret v)) (except_ClientError q))"
proof (rule obeys_try_except [OF Q, where Qp = "\<lambda>ext s.
    (\<exists>e. ext = [Call c (Inl e)] \<and> s = Raised e) \<or> (ext = [Call c (Inr Done)] \<and> s = Returned)"])
  show "obeys (\<lambda>ext s. (\<exists>e. ext = [Call c (Inl e)] \<and> s = Raised e)
                  \<or> (ext = [Call c (Inr Done)] \<and> s = Returned))
          (bind (sdk c) (\<lambda>_. ret v))"
    by (auto simp: obeys_def prog_defs split: sum.splits)
qed (use assms in \<open>auto simp: except_ClientError_def split: exn.splits\<close>)

lemma obeys_try_drop [obeys_intros]:
  assumes Q: "trace_property Q" and ok: "Q [Call c (Inr Done)] Returned"
    and other: "\<And>e. except_ServerError q e = None \<Longrightarrow> Q [Call c (Inl e)] (Raised e)"
    and handled: "\<And>code. Q [Call c (Inl (ServerError code))] Returned"
    and q: "\<And>code. obeys Q (q code)"
  shows "obeys Q (try_except (sdk c) (except_ServerError q))"
proof (rule obeys_try_except [OF Q, where Qp = "\<lambda>ext s.
    (\<exists>e. ext = [Call c (Inl e)] \<and> s = Raised e) \<or> (ext = [Call c (Inr Done)] \<and> s = Returned)"])
  show "obeys (\<lambda>ext s. (\<exists>e. ext = [Call c (Inl e)] \<and> s = Raised e)
                  \<or> (ext = [Call c (Inr Done)] \<and> s = Returned))
          (sdk c)"
    by (auto simp: obeys_def prog_defs split: sum.splits)
next
  fix ext s
  assume "(\<exists>e. ext = [Call c (Inl e)] \<and> s = Raised e) \<or> (ext = [Call c (Inr Done)] \<and> s = Returned)"
    and "\<forall>e. s = Raised e \<longrightarrow> except_ServerError q e = None"
  then show "Q ext s" using ok other by auto
next
  fix ext e q'
  assume "(\<exists>e'. ext = [Call c (Inl e')] \<and> Raised e = Raised e')
          \<or> (ext = [Call c (Inr Done)] \<and> Raised e = Returned)"
    and "except_ServerError q e = Some q'"
  then show "Q ext Returned \<and> obeys Q q'"
    using handled q by (auto simp: except_ServerError_def split: exn.splits)
qed

lemma obeys_try_describe_index [obeys_intros]:
  assumes Q: "trace_property Q"
    and ok: "\<And>st. Q [Call (DescribeIndex t name) (Inr (IndexDescription st))] Returned"
    and other: "\<And>e. except_ServerError q e = None \<Longrightarrow>
                  Q [Call (DescribeIndex t name) (Inl e)] (Raised e)"
    and handled: "\<And>code. Q [Call (DescribeIndex t name) (Inl (ServerError code))] Returned"
    and q: "\<And>code. obeys Q (q code)"
  shows "obeys Q (try_except (bind (describe_index t name) (\<lambda>index. ret v))
                    (except_ServerError q))"
proof (rule obeys_try_except [OF Q, where Qp = "\<lambda>ext s.
    (\<exists>e. ext = [Call (DescribeIndex t name) (Inl e)] \<and> s = Raised e)
    \<or> (\<exists>st. ext = [Call (DescribeIndex t name) (Inr (IndexDescription st))] \<and> s = Returned)"])
  show "obeys (\<lambda>ext s. (\<exists>e. ext = [Call (DescribeIndex t name) (Inl e)] \<and> s = Raised e)
          \<or> (\<exists>st. ext = [Call (DescribeIndex t name) (Inr (IndexDescription st))]
                   \<and> s = Returned))
          (bind (describe_index t name) (\<lambda>index. ret v))"
    by (auto simp: obeys_def prog_defs split: sum.splits)
next
  fix ext s
  assume "(\<exists>e. ext = [Call (DescribeIndex t name) (Inl e)] \<and> s = Raised e)
          \<or> (\<exists>st. ext = [Call (DescribeIndex t name) (Inr (IndexDescription st))] \<and> s = Returned)"
    and "\<forall>e. s = Raised e \<longrightarrow> except_ServerError q e = None"
  then show "Q ext s" using ok other by auto
next
  fix ext e q'
  assume "(\<exists>e'. ext = [Call (DescribeIndex t name) (Inl e')] \<and> Raised e = Raised e')
          \<or> (\<exists>st. ext = [Call (DescribeIndex t name) (Inr (IndexDescription st))]
                   \<and> Raised e = Returned)"
    and "except_ServerError q e = Some q'"
  then show "Q ext Returned \<and> obeys Q q'"
    using handled q by (auto simp: except_ServerError_def split: exn.splits)
qed

lemma obeys_if [obeys_intros]:
  "(c \<Longrightarrow> obeys Q p) \<Longrightarrow> (\<not> c \<Longrightarrow> obeys Q q) \<Longrightarrow> obeys Q (if c then p else q)"
  by simp

lemma obeys_case_option [obeys_intros]:
  "(x = None \<Longrightarrow> obeys Q p) \<Longrightarrow> (\<And>y. x = Some y \<Longrightarrow> obeys Q (f y)) \<Longrightarrow>
   obeys Q (case x of None \<Rightarrow> p | Some y \<Rightarrow> f y)"
  by (cases x) simp_all

lemma obeys_for_each [obeys_intros]:
  "trace_property Q \<Longrightarrow> (\<And>x. obeys Q (body x)) \<Longrightarrow> obeys Q (for_each xs body)"
  by (induction xs) (auto intro: obeys_ret obeys_seq)

text \<open>The loops, for a property that holds of each of their events alone.\<close>

lemma obeys_wait_table_normal:
  assumes "trace_property Q" and "Q [] StillRunning" and "Q [Sleep 2] Returned"
    and "\<And>e. Q [Call (DescribeTable db t) (Inl e)] (Raised e)"
    and "\<And>v. Q [Call (DescribeTable db t) (Inr (TableDescription v))] Returned"
  shows "obeys Q (wait_table_normal db t n)"
  using assms by (induction n) (auto intro!: obeys_intros)

lemma obeys_wait_index_normal:
  assumes "trace_property Q" and "Q [] StillRunning" and "Q [Sleep 2] Returned"
    and "\<And>e. Q [Call (DescribeIndex t name) (Inl e)] (Raised e)"
    and "\<And>v. Q [Call (DescribeIndex t name) (Inr (IndexDescription v))] Returned"
  shows "obeys Q (wait_index_normal t name n)"
  using assms by (induction n) (auto intro!: obeys_intros)

lemma obeys_wait_index_dropped:
  assumes "trace_property Q" and "Q [] StillRunning" and "Q [Sleep 2] Returned"
    and "Q [Log ''code''] Returned"
    and "\<And>e. Q [Call (DescribeIndex t name) (Inl e)] (Raised e)"
    and "\<And>code. Q [Call (DescribeIndex t name) (Inl (ServerError code))] Returned"
    and "\<And>v. Q [Call (DescribeIndex t name) (Inr (IndexDescription v))] Returned"
  shows "obeys Q (wait_index_dropped t name n)"
  using assms by (induction n) (auto intro!: obeys_intros)

lemma obeys_drain_iterator:
  assumes "trace_property Q" and "Q [] StillRunning" and "Q [Log ''rows''] Returned"
    and "\<And>e. Q [Call (IteratorNext it) (Inl e)] (Raised e)"
    and "\<And>v. Q [Call (IteratorNext it) (Inr (RowBatch v))] Returned"
  shows "obeys Q (drain_iterator it n)"
  using assms by (induction n) (auto intro!: obeys_intros)

lemma obeys_select_loop:
  assumes "trace_property Q" and "Q [] StillRunning" and "Q [Log ''res''] Returned"
    and "Q [Log ''select finished''] Returned"
    and "Q [Log ''select next batch''] Returned"
    and "\<And>mk e. Q [Call (Select t mk pr 20) (Inl e)] (Raised e)"
    and "\<And>mk b nm. Q [Call (Select t mk pr 20) (Inr (SelectResult b nm))] Returned"
  shows "obeys Q (select_loop t pr n mk)"
  using assms by (induction n arbitrary: mk) (auto intro!: obeys_intros)

lemmas method_defs = clear_def create_db_and_table_def upsert_data_def select_data_def
  change_table_schema_def show_table_stats_def query_data_def batch_query_data_def
  vector_search_def search_iterator_def bm25_search_def hybrid_search_def update_data_def
  delete_data_def drop_and_create_vindex_def binary_vector_usage_example_def
  sparse_vector_usage_example_def delete_and_drop_def drop_if_exists_def

lemmas loop_rules = obeys_wait_table_normal obeys_wait_index_normal obeys_wait_index_dropped
  obeys_drain_iterator obeys_select_loop

lemma trace_property_every: "trace_property (every P)"
  by (simp add: trace_property_def every_def)

section \<open>The run of the main program in the friendly world\<close>

lemma steady_seq: "steady p w E \<Longrightarrow> seq p q w tr = q w (tr @ E)"
  by (simp add: steady_def seq_def bind_def)

lemma steady_run: "steady p w E \<Longrightarrow> p w tr = (tr @ E, Return ())"
  by (simp add: steady_def)

lemma seq_Return: "p w tr = (tr', Return x) \<Longrightarrow> seq p q w tr = q w tr'"
  by (simp add: seq_def bind_def)

lemma seq_Raise: "p w tr = (tr', Raise e) \<Longrightarrow> seq p q w tr = (tr', Raise e)"
  by (simp add: seq_def bind_def)

lemma comprehension_Inr:
  "(\<And>x. x \<in> set xs \<Longrightarrow> \<exists>y. f x = Inr y) \<Longrightarrow> \<exists>ys. comprehension f xs = Inr ys"
proof (induction xs)
  case Nil
  show ?case by simp
next
  case (Cons x xs)
  then obtain y ys where "f x = Inr y" "comprehension f xs = Inr ys"
    by (metis list.set_intros(1,2))
  then show ?case by simp
qed

lemma num_to_binary_list_128:
  assumes "0 \<le> num" and "num < 2 ^ 128"
  shows "\<exists>bits. num_to_binary_list num 128 = Inr bits"
proof -
  have "nat num < 2 ^ 128" using assms by (simp add: nat_less_iff)
  have "length (bit_list (nat num)) \<le> 128"
  proof (rule ccontr)
    assume "\<not> length (bit_list (nat num)) \<le> 128"
    then have l: "128 < length (bit_list (nat num))" by simp
    then have "bit_list (nat num) \<noteq> [0]" by auto
    then have pos: "0 < nat num" by (subst (asm) bit_list.simps) (auto split: if_splits)
    have "(2::nat) ^ 128 \<le> 2 ^ (length (bit_list (nat num)) - 1)"
      using l by (intro power_increasing) auto
    also have "\<dots> \<le> nat num" by (rule bit_list_lower [OF pos])
    finally show False using \<open>nat num < 2 ^ 128\<close> by simp
  qed
  then show ?thesis
    using assms(1) by (auto simp: num_to_binary_list_nonneg Let_def)
qed

lemma binary_rows_128: "\<exists>rows. binary_rows 128 = Inr rows"
  unfolding binary_rows_def
proof (rule comprehension_Inr)
  fix x :: int
  assume "x \<in> set (map int [0..<50])"
  then have "0 \<le> x" "x < 2 ^ 128" by auto
  from num_to_binary_list_128 [OF this] show
    "\<exists>y. (case num_to_binary_list x 128 of Inl e \<Rightarrow> Inl e
           | Inr bits \<Rightarrow> Inr (Row (str x) (BinaryVector bits))) = Inr y"
    by auto
qed

lemmas friendly_defs = friendly_def before_last_def last_is_def prog_defs Let_def

lemma friendly_steady:
  "steady clear friendly (emitted clear friendly [])"
  "steady (create_db_and_table HNSWPQ (Suc (Suc n))) friendly
     (emitted (create_db_and_table HNSWPQ (Suc (Suc n))) friendly [])"
  "steady upsert_data friendly (emitted upsert_data friendly [])"
  "steady (select_data (Suc (Suc n))) friendly (emitted (select_data (Suc (Suc n))) friendly [])"
  "steady change_table_schema friendly (emitted change_table_schema friendly [])"
  "steady show_table_stats friendly (emitted show_table_stats friendly [])"
  "steady query_data friendly (emitted query_data friendly [])"
  "steady batch_query_data friendly (emitted batch_query_data friendly [])"
  "steady (vector_search HNSWPQ (Suc (Suc n))) friendly
     (emitted (vector_search HNSWPQ (Suc (Suc n))) friendly [])"
  "steady (search_iterator (Suc (Suc n))) friendly
     (emitted (search_iterator (Suc (Suc n))) friendly [])"
  "steady bm25_search friendly (emitted bm25_search friendly [])"
  "steady (hybrid_search HNSWPQ) friendly (emitted (hybrid_search HNSWPQ) friendly [])"
  "steady update_data friendly (emitted update_data friendly [])"
  "steady delete_data friendly (emitted delete_data friendly [])"
  "steady (drop_and_create_vindex HNSWPQ (Suc (Suc n))) friendly
     (emitted (drop_and_create_vindex HNSWPQ (Suc (Suc n))) friendly [])"
  "steady (sparse_vector_usage_example (Suc (Suc n))) friendly
     (emitted (sparse_vector_usage_example (Suc (Suc n))) friendly [])"
  "steady delete_and_drop friendly (emitted delete_and_drop friendly [])"
  by (simp_all add: steady_def emitted_def method_defs friendly_defs)

lemma friendly_steady_binary:
  "steady (binary_vector_usage_example (Suc (Suc n))) friendly
     (emitted (binary_vector_usage_example (Suc (Suc n))) friendly [])"
proof -
  obtain rows where r: "binary_rows 128 = Inr rows" using binary_rows_128 by blast
  obtain bits where b: "num_to_binary_list 123 128 = Inr bits"
    using num_to_binary_list_128 [of 123] by auto
  show ?thesis by (simp add: steady_def emitted_def method_defs friendly_defs r b)
qed

lemma friendly_main:
  "main (Suc (Suc n)) friendly [] =
     (emitted clear friendly [] @
      emitted (create_db_and_table HNSWPQ (Suc (Suc n))) friendly [] @
      emitted upsert_data friendly [] @
      emitted (select_data (Suc (Suc n))) friendly [] @
      emitted change_table_schema friendly [] @
      emitted show_table_stats friendly [] @
      emitted query_data friendly [] @
      emitted batch_query_data friendly [] @
      emitted (vector_search HNSWPQ (Suc (Suc n))) friendly [] @
      emitted (search_iterator (Suc (Suc n))) friendly [] @
      emitted bm25_search friendly [] @
      emitted (hybrid_search HNSWPQ) friendly [] @
      emitted update_data friendly [] @
      emitted delete_data friendly [] @
      emitted (drop_and_create_vindex HNSWPQ (Suc (Suc n))) friendly [] @
      emitted (binary_vector_usage_example (Suc (Suc n))) friendly [] @
      emitted (sparse_vector_usage_example (Suc (Suc n))) friendly [] @
      emitted delete_and_drop friendly [], Return ())"
  unfolding main_def Let_def
  by (simp only: friendly_steady [THEN steady_seq] friendly_steady_binary [THEN steady_seq]
        friendly_steady(17) [THEN steady_run] append_Nil append_assoc)

section \<open>Delays\<close>

lemma seq_bind_assoc: "seq p (bind q f) = bind (seq p q) f"
  by (rule ext, rule ext) (simp add: seq_def bind_def split: prod.splits outcome.splits)

lemma seq_seq_assoc: "seq p (seq q r) = seq (seq p q) r"
  unfolding seq_def [of q r] seq_bind_assoc by (simp add: seq_def)

lemma poll_allowed_weaken: "poll_allowed None e \<Longrightarrow> poll_allowed prev e"
  by (cases "(None :: event option, e)" rule: poll_allowed.cases) auto

lemma polls_after_weaken: "polls_after None es \<Longrightarrow> polls_after prev es"
  by (cases es) (auto intro: poll_allowed_weaken)

lemma polls_after_append:
  "polls_after prev xs \<Longrightarrow> polls_after None ys \<Longrightarrow> polls_after prev (xs @ ys)"
  by (induction xs arbitrary: prev) (auto intro: polls_after_weaken)

lemma trace_property_polls_spaced: "trace_property polls_spaced"
  by (simp add: trace_property_def polls_spaced_def polls_after_append)

lemma sleep_describe_table: "obeys polls_spaced (seq (sleep 2) (describe_table db t))"
  by (auto simp: obeys_def prog_defs polls_spaced_def split: sum.splits)

lemma sleep_describe_index: "obeys polls_spaced (seq (sleep 2) (describe_index t name))"
  by (auto simp: obeys_def prog_defs polls_spaced_def split: sum.splits)

lemma polls_wait_table_normal: "obeys polls_spaced (wait_table_normal db t n)"
proof (induction n)
  case 0
  show ?case by (simp add: obeys_running polls_spaced_def)
next
  case (Suc n)
  show ?case
    unfolding wait_table_normal.simps seq_bind_assoc
    by (intro obeys_bind obeys_if obeys_ret trace_property_polls_spaced sleep_describe_table Suc)
qed

lemma polls_wait_index_normal: "obeys polls_spaced (wait_index_normal t name n)"
proof (induction n)
  case 0
  show ?case by (simp add: obeys_running polls_spaced_def)
next
  case (Suc n)
  show ?case
    unfolding wait_index_normal.simps seq_bind_assoc
    by (intro obeys_bind obeys_if obeys_ret trace_property_polls_spaced sleep_describe_index Suc)
qed

lemma sleep_try_describe_index:
  "obeys polls_spaced
     (seq (sleep 2)
        (try_except (bind (describe_index t name) (\<lambda>index. ret False))
           (except_ServerError (\<lambda>code. seq (log ''code'') (ret (code = INDEX_NOT_EXIST))))))"
  by (auto simp: obeys_def prog_defs polls_spaced_def split: sum.splits exn.splits)

lemma polls_wait_index_dropped: "obeys polls_spaced (wait_index_dropped t name n)"
proof (induction n)
  case 0
  show ?case by (simp add: obeys_running polls_spaced_def)
next
  case (Suc n)
  show ?case
    unfolding wait_index_dropped.simps seq_bind_assoc
    by (intro obeys_bind obeys_if obeys_ret trace_property_polls_spaced
          sleep_try_describe_index Suc)
qed

lemma modify_describe_index:
  "obeys polls_spaced
     (seq (sdk (ModifyIndex t name b s)) (bind (describe_index t name) (\<lambda>index. log msg)))"
  by (auto simp: obeys_def prog_defs polls_spaced_def split: sum.splits)

lemma main_polls_spaced: "obeys polls_spaced (main n)"
  unfolding main_def method_defs Let_def
  by (intro polls_wait_table_normal polls_wait_index_normal polls_wait_index_dropped
        modify_describe_index obeys_intros obeys_drain_iterator obeys_select_loop
        trace_property_polls_spaced)
     (simp_all add: polls_spaced_def)

lemma trace_of_obeys:
  assumes "obeys Q p"
  shows "Q (fst (p w [])) (status_of (snd (p w [])))"
  using assms [unfolded obeys_def, rule_format, of w "[]"] by auto

lemma every_fixed_delay_main: "obeys (every fixed_delay) (main n)"
  unfolding main_def method_defs Let_def
  by (intro obeys_intros loop_rules trace_property_every) (simp_all add: every_def)

lemma polls_after_nth_table:
  "polls_after prev T \<Longrightarrow> i < length T \<Longrightarrow> T ! i = Call (DescribeTable db t) a \<Longrightarrow>
   (if i = 0 then prev else Some (T ! (i - 1))) = Some (Sleep 2)"
proof (induction T arbitrary: prev i)
  case Nil
  then show ?case by simp
next
  case (Cons e T)
  show ?case
  proof (cases i)
    case 0
    with Cons.prems show ?thesis by simp
  next
    case (Suc j)
    with Cons.prems have "polls_after (Some e) T" "j < length T" "T ! j = Call (DescribeTable db t) a"
      by simp_all
    from Cons.IH [OF this] show ?thesis using Suc by (cases j) simp_all
  qed
qed

lemma polls_after_nth_index:
  "polls_after prev T \<Longrightarrow> i < length T \<Longrightarrow> T ! i = Call (DescribeIndex t name) a \<Longrightarrow>
   (case (if i = 0 then prev else Some (T ! (i - 1))) of
      Some e \<Rightarrow> e = Sleep 2 \<or> is_ModifyIndex e | None \<Rightarrow> False)"
proof (induction T arbitrary: prev i)
  case Nil
  then show ?case by simp
next
  case (Cons e T)
  show ?case
  proof (cases i)
    case 0
    with Cons.prems show ?thesis by (auto split: option.splits)
  next
    case (Suc j)
    with Cons.prems have "polls_after (Some e) T" "j < length T" "T ! j = Call (DescribeIndex t name) a"
      by simp_all
    from Cons.IH [OF this] show ?thesis using Suc by (cases j) simp_all
  qed
qed

lemma friendly_lengths:
  "length (emitted clear friendly []) = 4"
  "length (emitted (create_db_and_table HNSWPQ (Suc (Suc 0))) friendly []) = 13"
  "length (emitted upsert_data friendly []) = 4"
  "length (emitted (select_data (Suc (Suc 0))) friendly []) = 8"
  "length (emitted change_table_schema friendly []) = 4"
  "length (emitted show_table_stats friendly []) = 4"
  "length (emitted query_data friendly []) = 4"
  "length (emitted batch_query_data friendly []) = 4"
  by (simp_all add: emitted_def method_defs friendly_defs)

lemma friendly_polls:
  "emitted (create_db_and_table HNSWPQ (Suc (Suc 0))) friendly [] ! 4 = Sleep 2"
  "emitted (create_db_and_table HNSWPQ (Suc (Suc 0))) friendly [] ! 5 =
     Call (DescribeTable book book_segments) (Inr (TableDescription (OtherTableState ''CREATING'')))"
  "emitted (vector_search HNSWPQ (Suc (Suc 0))) friendly [] ! 3 = Sleep 2"
  "emitted (vector_search HNSWPQ (Suc (Suc 0))) friendly [] ! 4 =
     Call (DescribeIndex (book, book_segments) ''vector_idx'')
       (Inr (IndexDescription (OtherIndexState ''BUILDING'')))"
  "4 < length (emitted (vector_search HNSWPQ (Suc (Suc 0))) friendly [])"
  "emitted clear friendly [] ! 2 = Sleep 10"
  by (simp_all add: emitted_def method_defs friendly_defs)

lemma friendly_main_nth:
  "fst (main (Suc (Suc 0)) friendly []) ! 2 = Sleep 10"
  "fst (main (Suc (Suc 0)) friendly []) ! 8 = Sleep 2"
  "fst (main (Suc (Suc 0)) friendly []) ! 9 =
     Call (DescribeTable book book_segments) (Inr (TableDescription (OtherTableState ''CREATING'')))"
  "fst (main (Suc (Suc 0)) friendly []) ! 48 = Sleep 2"
  "fst (main (Suc (Suc 0)) friendly []) ! 49 =
     Call (DescribeIndex (book, book_segments) ''vector_idx'')
       (Inr (IndexDescription (OtherIndexState ''BUILDING'')))"
  "49 < length (fst (main (Suc (Suc 0)) friendly []))"
  using friendly_polls by (simp_all add: friendly_main nth_append friendly_lengths)

section \<open>What a run has emitted\<close>

lemma emitted_obeys:
  assumes "obeys Q p"
  shows "Q (emitted p w tr) (status_of (snd (p w tr)))"
  using assms [unfolded obeys_def, rule_format, of w tr] by (auto simp: emitted_def)

section \<open>More rules\<close>

lemma obeys_bind_gen:
  assumes p: "obeys Q1 p" and f: "\<And>x. obeys Q2 (f x)"
    and both: "\<And>e1 e2 s. Q1 e1 Returned \<Longrightarrow> Q2 e2 s \<Longrightarrow> Q (e1 @ e2) s"
    and stop: "\<And>e1 s. s \<noteq> Returned \<Longrightarrow> Q1 e1 s \<Longrightarrow> Q e1 s"
  shows "obeys Q (bind p f)"
proof (rule obeysI)
  fix w tr
  from p obtain e1 where e1: "fst (p w tr) = tr @ e1" "Q1 e1 (status_of (snd (p w tr)))"
    by (rule obeysD)
  show "\<exists>ext. fst (bind p f w tr) = tr @ ext \<and> Q ext (status_of (snd (bind p f w tr)))"
  proof (cases "snd (p w tr)")
    case (Return x)
    from f [of x] obtain e2 where
      e2: "fst (f x w (tr @ e1)) = (tr @ e1) @ e2" "Q2 e2 (status_of (snd (f x w (tr @ e1))))"
      by (rule obeysD)
    have "bind p f w tr = f x w (tr @ e1)"
      using Return e1(1) by (cases "p w tr") (simp add: bind_def)
    moreover have "Q (e1 @ e2) (status_of (snd (f x w (tr @ e1))))"
      using e1(2) e2(2) Return by (auto intro: both)
    ultimately show ?thesis using e2(1) by auto
  next
    case (Raise e)
    then have "bind p f w tr = (tr @ e1, Raise e)"
      using e1(1) by (cases "p w tr") (simp add: bind_def)
    moreover have "Q e1 (Raised e)" using e1(2) Raise by (auto intro: stop)
    ultimately show ?thesis by auto
  next
    case Running
    then have "bind p f w tr = (tr @ e1, Running)"
      using e1(1) by (cases "p w tr") (simp add: bind_def)
    moreover have "Q e1 StillRunning" using e1(2) Running by (auto intro: stop)
    ultimately show ?thesis by auto
  qed
qed

lemma never_returns_raise: "obeys (\<lambda>ext s. s \<noteq> Returned) (raise e)"
  by (simp add: obeys_def raise_def)

lemma never_returns_bind:
  "obeys (every (\<lambda>e. True)) p \<Longrightarrow> (\<And>x. obeys (\<lambda>ext s. s \<noteq> Returned) (f x)) \<Longrightarrow>
   obeys (\<lambda>ext s. s \<noteq> Returned) (bind p f)"
  by (rule obeys_bind_gen) auto

lemma never_returns_seq:
  "obeys (every (\<lambda>e. True)) p \<Longrightarrow> obeys (\<lambda>ext s. s \<noteq> Returned) q \<Longrightarrow>
   obeys (\<lambda>ext s. s \<noteq> Returned) (seq p q)"
  unfolding seq_def by (rule never_returns_bind)

lemma never_returnsD:
  assumes "obeys (\<lambda>ext s. s \<noteq> Returned) p"
  shows "snd (p w tr) \<noteq> Return x"
  using assms [unfolded obeys_def, rule_format, of w tr] by auto

lemma bind_raise: "bind (raise e) f = raise e"
  by (rule ext, rule ext) (simp add: bind_def raise_def)

lemma bind_ret: "bind (ret x) f = f x"
  by (rule ext, rule ext) (simp add: bind_def ret_def)

lemma bind_Return: "p w tr = (tr', Return x) \<Longrightarrow> bind p f w tr = f x w tr'"
  by (simp add: bind_def)

lemma for_each_log:
  "for_each xs (\<lambda>x. log msg) w tr = (tr @ replicate (length xs) (Log msg), Return ())"
  by (induction xs arbitrary: tr) (simp_all add: prog_defs replicate_app_Cons_same)

lemma read_local_None: "read_local name None = raise (UnboundLocalError name)"
  by (simp add: read_local_def)

lemma read_local_Some: "read_local name (Some x) = ret x"
  by (simp add: read_local_def)

section \<open>An index type the script does not support\<close>

lemma create_db_and_table_unsupported:
  assumes "ty \<noteq> HNSW" "ty \<noteq> HNSWPQ" "ty \<noteq> PUCK"
  shows "create_db_and_table ty n =
     bind (sdk (CreateDatabase book)) (\<lambda>_.
     bind list_databases (\<lambda>database_list.
     seq (for_each database_list (\<lambda>db_item. log ''database''))
         (raise (Exception ''not support index type''))))"
  using assms by (simp add: create_db_and_table_def Let_def bind_raise)

lemma drop_and_create_vindex_regroup:
  "drop_and_create_vindex ty n =
     seq (drop_index_and_wait n)
       (bind (if ty = HNSW then
                ret ([] @ [VectorIndex ''vector_idx'' HNSW ''vector'' L2
                                  (Some (HNSWParams 16 200)) (Some False)])
              else if ty = HNSWPQ then
                ret ([] @ [VectorIndex ''vector_idx'' HNSWPQ ''vector'' L2
                                  (Some (HNSWPQParams 16 200 4 ''1.0'')) None])
              else if ty = PUCK then
                ret ([] @ [VectorIndex ''vector_idx'' PUCK ''vector'' L2
                                  (Some (PUCKParams 5 5)) (Some False)])
              else raise (Exception ''not support index type''))
          (\<lambda>indexes.
        seq (sdk (CreateIndexes (book, book_segments) indexes))
       (seq (sleep 1)
       (seq (sdk (ModifyIndex (book, book_segments) ''vector_idx'' True ''2024-01-01 00:00:00''))
       (bind (describe_index (book, book_segments) ''vector_idx'') (\<lambda>index.
             log ''index''))))))"
  unfolding drop_and_create_vindex_def drop_index_and_wait_def Let_def
  by (simp only: seq_seq_assoc [symmetric])

lemma extends_drop_index_and_wait: "obeys (every P) (drop_index_and_wait n)"
  if "P (Sleep 2)" "\<And>m. P (Log m)" "\<And>c a. \<not> is_CreateIndexes_event (Call c a) \<Longrightarrow> P (Call c a)"
  unfolding drop_index_and_wait_def
  by (intro obeys_intros loop_rules trace_property_every) (simp_all add: every_def that)

lemma drop_and_create_vindex_unsupported:
  assumes "ty \<noteq> HNSW" "ty \<noteq> HNSWPQ" "ty \<noteq> PUCK"
  shows "drop_and_create_vindex ty n =
     seq (drop_index_and_wait n) (raise (Exception ''not support index type''))"
  using assms by (simp add: drop_and_create_vindex_regroup bind_raise)

lemma unsupported_create_db_and_table:
  assumes ty: "ty \<noteq> HNSW" "ty \<noteq> HNSWPQ" "ty \<noteq> PUCK"
  shows "list_all (\<lambda>e. \<not> is_CreateTable_event e) (emitted (create_db_and_table ty n) w tr)"
    and "snd (create_db_and_table ty n w tr) \<noteq> Return ()"
    and "sdk_answer w tr (CreateDatabase book) = Inr () \<Longrightarrow>
         list_databases_answer w (tr @ [Call (CreateDatabase book) (Inr Done)]) ListDatabases
           = Inr dbs \<Longrightarrow>
         create_db_and_table ty n w tr =
           (tr @ [Call (CreateDatabase book) (Inr Done), Call ListDatabases (Inr (DatabaseList dbs))]
               @ replicate (length dbs) (Log ''database''),
            Raise (Exception ''not support index type''))"
proof -
  have "obeys (every (\<lambda>e. \<not> is_CreateTable_event e)) (create_db_and_table ty n)"
    unfolding create_db_and_table_unsupported [OF ty]
    by (intro obeys_intros trace_property_every) (simp_all add: every_def)
  from emitted_obeys [OF this] show
    "list_all (\<lambda>e. \<not> is_CreateTable_event e) (emitted (create_db_and_table ty n) w tr)"
    by (simp add: every_def)
  have "obeys (\<lambda>ext s. s \<noteq> Returned) (create_db_and_table ty n)"
    unfolding create_db_and_table_unsupported [OF ty]
    by (intro never_returns_bind never_returns_seq never_returns_raise
          obeys_intros trace_property_every)
       (simp_all add: every_def)
  then show "snd (create_db_and_table ty n w tr) \<noteq> Return ()" by (rule never_returnsD)
  show "create_db_and_table ty n w tr =
           (tr @ [Call (CreateDatabase book) (Inr Done), Call ListDatabases (Inr (DatabaseList dbs))]
               @ replicate (length dbs) (Log ''database''),
            Raise (Exception ''not support index type''))"
    if "sdk_answer w tr (CreateDatabase book) = Inr ()"
      "list_databases_answer w (tr @ [Call (CreateDatabase book) (Inr Done)]) ListDatabases
           = Inr dbs"
    using that unfolding create_db_and_table_unsupported [OF ty]
    by (simp add: bind_def seq_def sdk_def list_databases_def ask_def for_each_log raise_def)
qed

lemma unsupported_drop_and_create_vindex:
  assumes ty: "ty \<noteq> HNSW" "ty \<noteq> HNSWPQ" "ty \<noteq> PUCK"
  shows "list_all (\<lambda>e. \<not> is_CreateIndexes_event e) (emitted (drop_and_create_vindex ty n) w tr)"
    and "snd (drop_and_create_vindex ty n w tr) \<noteq> Return ()"
    and "drop_index_and_wait n w tr = (tr', Return ()) \<Longrightarrow>
         drop_and_create_vindex ty n w tr = (tr', Raise (Exception ''not support index type''))"
proof -
  have "obeys (every (\<lambda>e. \<not> is_CreateIndexes_event e)) (drop_and_create_vindex ty n)"
    unfolding drop_and_create_vindex_unsupported [OF ty]
    by (intro obeys_intros trace_property_every extends_drop_index_and_wait)
       (simp_all add: every_def)
  from emitted_obeys [OF this] show
    "list_all (\<lambda>e. \<not> is_CreateIndexes_event e) (emitted (drop_and_create_vindex ty n) w tr)"
    by (simp add: every_def)
  have "obeys (\<lambda>ext s. s \<noteq> Returned) (drop_and_create_vindex ty n)"
    unfolding drop_and_create_vindex_unsupported [OF ty]
    by (intro never_returns_seq never_returns_raise extends_drop_index_and_wait) simp_all
  then show "snd (drop_and_create_vindex ty n w tr) \<noteq> Return ()" by (rule never_returnsD)
  show "drop_and_create_vindex ty n w tr = (tr', Raise (Exception ''not support index type''))"
    if "drop_index_and_wait n w tr = (tr', Return ())"
    unfolding drop_and_create_vindex_unsupported [OF ty]
    using that by (simp add: seq_def bind_def raise_def)
qed

lemma trace_property_fails_only_by_sdk: "trace_property fails_only_by_sdk"
  by (auto simp: trace_property_def fails_only_by_sdk_def split: status.splits)

lemma supported_create_db_and_table:
  assumes "ty = HNSW \<or> ty = HNSWPQ \<or> ty = PUCK"
  shows "obeys (every (creates_one_vector_index ty)) (create_db_and_table ty n)"
    and "obeys fails_only_by_sdk (create_db_and_table ty n)"
  using assms
  by (auto simp: create_db_and_table_def Let_def bind_ret
      intro!: obeys_intros loop_rules trace_property_every trace_property_fails_only_by_sdk
      simp: every_def fails_only_by_sdk_def one_vector_index_def)

lemma supported_drop_and_create_vindex:
  assumes "ty = HNSW \<or> ty = HNSWPQ \<or> ty = PUCK"
  shows "obeys (every (creates_one_vector_index ty)) (drop_and_create_vindex ty n)"
    and "obeys fails_only_by_sdk (drop_and_create_vindex ty n)"
  using assms
  by (auto simp: drop_and_create_vindex_def Let_def bind_ret
      intro!: obeys_intros loop_rules trace_property_every trace_property_fails_only_by_sdk
      simp: every_def fails_only_by_sdk_def one_vector_index_def)

section \<open>Local variables that a branch leaves unbound\<close>

lemma vector_search_unsupported:
  assumes "ty \<noteq> HNSW" "ty \<noteq> HNSWPQ" "ty \<noteq> PUCK"
  shows "vector_search ty n =
           seq (rebuild_index_and_wait n) (raise (UnboundLocalError ''request''))"
proof -
  have "vector_search ty n =
      seq (sdk (Database book))
     (seq (sdk (Table book book_segments))
     (seq (sdk (RebuildIndex (book, book_segments) ''vector_idx''))
     (seq (wait_index_normal (book, book_segments) ''vector_idx'' n)
          (raise (UnboundLocalError ''request'')))))"
    using assms by (simp add: vector_search_def Let_def read_local_None bind_raise seq_def)
  then show ?thesis
    by (simp only: rebuild_index_and_wait_def seq_seq_assoc [symmetric])
qed

lemma hybrid_search_unsupported:
  assumes "ty \<noteq> HNSW" "ty \<noteq> HNSWPQ" "ty \<noteq> PUCK"
  shows "hybrid_search ty = seq open_book_segments (raise (UnboundLocalError ''config''))"
proof -
  have "hybrid_search ty =
      seq (sdk (Database book))
     (seq (sdk (Table book book_segments)) (raise (UnboundLocalError ''config'')))"
    using assms by (simp add: hybrid_search_def Let_def read_local_None bind_raise)
  then show ?thesis
    by (simp only: open_book_segments_def seq_seq_assoc [symmetric])
qed

lemma extends_rebuild_index_and_wait:
  "obeys (every P) (rebuild_index_and_wait n)"
  if "P (Sleep 2)" "\<And>c a. \<not> is_VectorSearch_event (Call c a) \<Longrightarrow> P (Call c a)"
  unfolding rebuild_index_and_wait_def
  by (intro obeys_intros loop_rules trace_property_every) (simp_all add: every_def that)

lemma extends_open_book_segments:
  "obeys (every P) open_book_segments"
  if "\<And>c a. \<not> is_HybridSearch_event (Call c a) \<Longrightarrow> P (Call c a)"
  unfolding open_book_segments_def
  by (intro obeys_intros trace_property_every) (simp_all add: every_def that)

lemma unsupported_vector_search:
  assumes ty: "ty \<noteq> HNSW" "ty \<noteq> HNSWPQ" "ty \<noteq> PUCK"
  shows "list_all (\<lambda>e. \<not> is_VectorSearch_event e) (emitted (vector_search ty n) w tr)"
    and "snd (vector_search ty n w tr) \<noteq> Return ()"
    and "rebuild_index_and_wait n w tr = (tr', Return st) \<Longrightarrow>
         vector_search ty n w tr = (tr', Raise (UnboundLocalError ''request''))"
proof -
  have "obeys (every (\<lambda>e. \<not> is_VectorSearch_event e)) (vector_search ty n)"
    unfolding vector_search_unsupported [OF ty]
    by (intro obeys_intros trace_property_every extends_rebuild_index_and_wait)
       (simp_all add: every_def)
  from emitted_obeys [OF this] show
    "list_all (\<lambda>e. \<not> is_VectorSearch_event e) (emitted (vector_search ty n) w tr)"
    by (simp add: every_def)
  have "obeys (\<lambda>ext s. s \<noteq> Returned) (vector_search ty n)"
    unfolding vector_search_unsupported [OF ty]
    by (intro never_returns_seq never_returns_raise extends_rebuild_index_and_wait) simp_all
  then show "snd (vector_search ty n w tr) \<noteq> Return ()" by (rule never_returnsD)
  show "vector_search ty n w tr = (tr', Raise (UnboundLocalError ''request''))"
    if "rebuild_index_and_wait n w tr = (tr', Return st)"
    unfolding vector_search_unsupported [OF ty]
    using that by (simp add: seq_def bind_def raise_def)
qed

lemma unsupported_hybrid_search:
  assumes ty: "ty \<noteq> HNSW" "ty \<noteq> HNSWPQ" "ty \<noteq> PUCK"
  shows "list_all (\<lambda>e. \<not> is_HybridSearch_event e) (emitted (hybrid_search ty) w tr)"
    and "snd (hybrid_search ty w tr) \<noteq> Return ()"
    and "open_book_segments w tr = (tr', Return ()) \<Longrightarrow>
         hybrid_search ty w tr = (tr', Raise (UnboundLocalError ''config''))"
proof -
  have "obeys (every (\<lambda>e. \<not> is_HybridSearch_event e)) (hybrid_search ty)"
    unfolding hybrid_search_unsupported [OF ty]
    by (intro obeys_intros trace_property_every extends_open_book_segments)
       (simp_all add: every_def)
  from emitted_obeys [OF this] show
    "list_all (\<lambda>e. \<not> is_HybridSearch_event e) (emitted (hybrid_search ty) w tr)"
    by (simp add: every_def)
  have "obeys (\<lambda>ext s. s \<noteq> Returned) (hybrid_search ty)"
    unfolding hybrid_search_unsupported [OF ty]
    by (intro never_returns_seq never_returns_raise extends_open_book_segments) simp_all
  then show "snd (hybrid_search ty w tr) \<noteq> Return ()" by (rule never_returnsD)
  show "hybrid_search ty w tr = (tr', Raise (UnboundLocalError ''config''))"
    if "open_book_segments w tr = (tr', Return ())"
    unfolding hybrid_search_unsupported [OF ty]
    using that by (simp add: seq_def bind_def raise_def)
qed

lemma supported_searches:
  assumes "ty = HNSW \<or> ty = HNSWPQ \<or> ty = PUCK"
  shows "obeys fails_only_by_sdk (vector_search ty n)"
    and "obeys fails_only_by_sdk (hybrid_search ty)"
  using assms
  by (auto simp: vector_search_def hybrid_search_def Let_def bind_ret read_local_Some
      intro!: obeys_intros loop_rules trace_property_fails_only_by_sdk
      simp: fails_only_by_sdk_def)

text \<open>
  Claim C10. With an index type other than \<open>HNSW\<close>, \<open>HNSWPQ\<close> and \<open>PUCK\<close>, \<^verbatim>\<open>vector_search\<close>
  never calls \<^verbatim>\<open>table.vector_search\<close> and never returns, and when its statements up to the end
  of the wait loop have returned it raises \<open>UnboundLocalError\<close> (a \<open>NameError\<close>) for the
  variable \<open>request\<close>; \<^verbatim>\<open>hybrid_search\<close> never calls \<^verbatim>\<open>table.hybrid_search\<close> and never returns,
  and when the table handle has been obtained it raises \<open>UnboundLocalError\<close> for \<open>config\<close>.
  With one of the three types, the two methods raise nothing but what an SDK call raised: no
  use of \<open>request\<close> or \<open>config\<close> finds the variable unbound.
\<close>

theorem unbound_request_and_config:
  "(ty \<noteq> HNSW \<and> ty \<noteq> HNSWPQ \<and> ty \<noteq> PUCK \<longrightarrow>
      list_all (\<lambda>e. \<not> is_VectorSearch_event e) (emitted (vector_search ty n) w tr)
      \<and> snd (vector_search ty n w tr) \<noteq> Return ()
      \<and> (rebuild_index_and_wait n w tr = (tr', Return st) \<longrightarrow>
          vector_search ty n w tr = (tr', Raise (UnboundLocalError ''request'')))
      \<and> list_all (\<lambda>e. \<not> is_HybridSearch_event e) (emitted (hybrid_search ty) w tr)
      \<and> snd (hybrid_search ty w tr) \<noteq> Return ()
      \<and> (open_book_segments w tr = (tr'', Return ()) \<longrightarrow>
          hybrid_search ty w tr = (tr'', Raise (UnboundLocalError ''config''))))
   \<and> is_NameError (UnboundLocalError ''request'')
   \<and> is_NameError (UnboundLocalError ''config'')
   \<and> (ty = HNSW \<or> ty = HNSWPQ \<or> ty = PUCK \<longrightarrow>
      fails_only_by_sdk (emitted (vector_search ty n) w tr)
        (status_of (snd (vector_search ty n w tr)))
      \<and> fails_only_by_sdk (emitted (hybrid_search ty) w tr)
           (status_of (snd (hybrid_search ty w tr))))"
proof (intro conjI impI; (elim conjE)?)
  assume "ty = HNSW \<or> ty = HNSWPQ \<or> ty = PUCK"
  note s = supported_searches [OF this]
  from emitted_obeys [OF s(1)]
  show "fails_only_by_sdk (emitted (vector_search ty n) w tr)
        (status_of (snd (vector_search ty n w tr)))" .
  from emitted_obeys [OF s(2)]
  show "fails_only_by_sdk (emitted (hybrid_search ty) w tr)
           (status_of (snd (hybrid_search ty w tr)))" .
next
  assume ty: "ty \<noteq> HNSW" "ty \<noteq> HNSWPQ" "ty \<noteq> PUCK"
  show "list_all (\<lambda>e. \<not> is_VectorSearch_event e) (emitted (vector_search ty n) w tr)"
    by (rule unsupported_vector_search(1) [OF ty])
  show "snd (vector_search ty n w tr) \<noteq> Return ()"
    by (rule unsupported_vector_search(2) [OF ty])
  show "list_all (\<lambda>e. \<not> is_HybridSearch_event e) (emitted (hybrid_search ty) w tr)"
    by (rule unsupported_hybrid_search(1) [OF ty])
  show "snd (hybrid_search ty w tr) \<noteq> Return ()"
    by (rule unsupported_hybrid_search(2) [OF ty])
next
  assume ty: "ty \<noteq> HNSW" "ty \<noteq> HNSWPQ" "ty \<noteq> PUCK"
    and "rebuild_index_and_wait n w tr = (tr', Return st)"
  then show "vector_search ty n w tr = (tr', Raise (UnboundLocalError ''request''))"
    by (rule unsupported_vector_search(3))
next
  assume ty: "ty \<noteq> HNSW" "ty \<noteq> HNSWPQ" "ty \<noteq> PUCK"
    and "open_book_segments w tr = (tr'', Return ())"
  then show "hybrid_search ty w tr = (tr'', Raise (UnboundLocalError ''config''))"
    by (rule unsupported_hybrid_search(3))
qed simp_all

theorem unbound_request_and_config_witness:
  "SPARSE_OPTIMIZED_FLAT \<noteq> HNSW \<and> SPARSE_OPTIMIZED_FLAT \<noteq> HNSWPQ \<and> SPARSE_OPTIMIZED_FLAT \<noteq> PUCK
   \<and> rebuild_index_and_wait (Suc (Suc 0)) friendly [] =
        ([Call (Database book) (Inr Done), Call (Table book book_segments) (Inr Done),
          Call (RebuildIndex (book, book_segments) ''vector_idx'') (Inr Done), Sleep 2,
          Call (DescribeIndex (book, book_segments) ''vector_idx'')
            (Inr (IndexDescription (OtherIndexState ''BUILDING''))),
          Sleep 2,
          Call (DescribeIndex (book, book_segments) ''vector_idx'')
            (Inr (IndexDescription IndexState_NORMAL))], Return IndexState_NORMAL)
   \<and> vector_search SPARSE_OPTIMIZED_FLAT (Suc (Suc 0)) friendly [] =
        ([Call (Database book) (Inr Done), Call (Table book book_segments) (Inr Done),
          Call (RebuildIndex (book, book_segments) ''vector_idx'') (Inr Done), Sleep 2,
          Call (DescribeIndex (book, book_segments) ''vector_idx'')
            (Inr (IndexDescription (OtherIndexState ''BUILDING''))),
          Sleep 2,
          Call (DescribeIndex (book, book_segments) ''vector_idx'')
            (Inr (IndexDescription IndexState_NORMAL))],
         Raise (UnboundLocalError ''request''))
   \<and> open_book_segments friendly [] =
        ([Call (Database book) (Inr Done), Call (Table book book_segments) (Inr Done)], Return ())
   \<and> hybrid_search SPARSE_OPTIMIZED_FLAT friendly [] =
        ([Call (Database book) (Inr Done), Call (Table book book_segments) (Inr Done)],
         Raise (UnboundLocalError ''config''))
   \<and> fails_only_by_sdk (emitted (vector_search PUCK (Suc (Suc 0))) friendly [])
        (status_of (snd (vector_search PUCK (Suc (Suc 0)) friendly [])))
   \<and> snd (vector_search PUCK (Suc (Suc 0)) friendly []) = Return ()
   \<and> snd (hybrid_search PUCK friendly []) = Return ()"
proof -
  have "snd (vector_search PUCK (Suc (Suc 0)) friendly []) = Return ()"
    "snd (hybrid_search PUCK friendly []) = Return ()"
    by (simp_all add: vector_search_def hybrid_search_def friendly_defs)
  then show ?thesis
    using unbound_request_and_config [of SPARSE_OPTIMIZED_FLAT "Suc (Suc 0)" friendly "[]"
        "[Call (Database book) (Inr Done), Call (Table book book_segments) (Inr Done),
          Call (RebuildIndex (book, book_segments) ''vector_idx'') (Inr Done), Sleep 2,
          Call (DescribeIndex (book, book_segments) ''vector_idx'')
            (Inr (IndexDescription (OtherIndexState ''BUILDING''))),
          Sleep 2,
          Call (DescribeIndex (book, book_segments) ''vector_idx'')
            (Inr (IndexDescription IndexState_NORMAL))]" IndexState_NORMAL
        "[Call (Database book) (Inr Done), Call (Table book book_segments) (Inr Done)]"]
      unbound_request_and_config [of PUCK "Suc (Suc 0)" friendly "[]"]
    by (simp add: rebuild_index_and_wait_def open_book_segments_def friendly_defs)
qed

section \<open>Cleanup in \<^verbatim>\<open>clear\<close>\<close>

text \<open>
  Claim C9. When the lookup of database \<open>book\<close> succeeds and \<^verbatim>\<open>drop_table\<close> raises a
  \<open>ServerError\<close>, \<^verbatim>\<open>clear\<close> goes on in the same way whatever the code of the error is: it
  writes the log line, sleeps 10 seconds and calls \<^verbatim>\<open>drop_database\<close>, and the server error is
  not what the method raises. The comparison of the code with \<open>TABLE_NOT_EXIST\<close> changes
  nothing.
\<close>

theorem clear_suppresses_every_server_error:
  assumes "sdk_answer w tr (Database book) = Inr ()"
    and "sdk_answer w (tr @ [Call (Database book) (Inr Done)]) (DropTable book book_segments)
         = Inl (ServerError code)"
  shows "clear w tr =
    (let tr4 = tr @ [Call (Database book) (Inr Done),
                     Call (DropTable book book_segments) (Inl (ServerError code)),
                     Log ''drop table error'', Sleep 10]
     in case sdk_answer w tr4 (DropDatabase book) of
          Inl e \<Rightarrow> (tr4 @ [Call (DropDatabase book) (Inl e)], Raise e)
        | Inr u \<Rightarrow> (tr4 @ [Call (DropDatabase book) (Inr Done)], Return ()))"
  using assms by (simp add: clear_def prog_defs split: sum.splits)

theorem clear_suppresses_every_server_error_witness:
  "sdk_answer (drop_table_fails (OtherServerErrCode 500)) [] (Database book) = Inr ()
   \<and> sdk_answer (drop_table_fails (OtherServerErrCode 500)) [Call (Database book) (Inr Done)]
        (DropTable book book_segments) = Inl (ServerError (OtherServerErrCode 500))
   \<and> clear (drop_table_fails (OtherServerErrCode 500)) [] =
       ([Call (Database book) (Inr Done),
         Call (DropTable book book_segments) (Inl (ServerError (OtherServerErrCode 500))),
         Log ''drop table error'', Sleep 10, Call (DropDatabase book) (Inr Done)], Return ())"
  using clear_suppresses_every_server_error
          [of "drop_table_fails (OtherServerErrCode 500)" "[]" "OtherServerErrCode 500"]
  by (simp add: drop_table_fails_def quiet_world_def)

section \<open>Programs only append to the trace\<close>

lemma extendsD:
  assumes "obeys (every (\<lambda>e. True)) p"
  shows "\<exists>ext. fst (p w tr) = tr @ ext"
  using assms unfolding obeys_def by blast

lemma emitted_seq_prefix:
  assumes p: "obeys (every (\<lambda>e. True)) p" and q: "obeys (every (\<lambda>e. True)) q"
    and E: "emitted p w tr = E"
  shows "\<exists>rest. emitted (seq p q) w tr = E @ rest"
proof -
  from extendsD [OF p] obtain ext where "fst (p w tr) = tr @ ext" by blast
  with E have fst: "fst (p w tr) = tr @ E" by (simp add: emitted_def)
  show ?thesis
  proof (cases "snd (p w tr)")
    case (Return x)
    then have "seq p q w tr = q w (tr @ E)"
      using fst by (cases "p w tr") (simp add: seq_def bind_def)
    moreover from extendsD [OF q] obtain ext where "fst (q w (tr @ E)) = (tr @ E) @ ext"
      by blast
    ultimately show ?thesis by (simp add: emitted_def)
  next
    case (Raise e)
    then have "seq p q w tr = (tr @ E, Raise e)"
      using fst by (cases "p w tr") (simp add: seq_def bind_def)
    then show ?thesis by (simp add: emitted_def)
  next
    case Running
    then have "seq p q w tr = (tr @ E, Running)"
      using fst by (cases "p w tr") (simp add: seq_def bind_def)
    then show ?thesis by (simp add: emitted_def)
  qed
qed

lemma extends_drop_if_exists: "obeys (every (\<lambda>e. True)) (drop_if_exists db t)"
  unfolding drop_if_exists_def
  by (intro obeys_intros trace_property_every) (simp_all add: every_def)

lemma binary_cleanup_no_database:
  assumes "sdk_answer w tr (Database ''test_binary_vec'') = Inl ClientError"
  shows "\<exists>a rest. emitted (binary_vector_usage_example n) w tr =
           [Call (Database ''test_binary_vec'') (Inl ClientError),
            Call (CreateDatabase ''test_binary_vec'') a] @ rest"
proof -
  have "\<exists>a. emitted (seq (drop_if_exists ''test_binary_vec'' ''test_binary_vec_tab'')
                  (sdk (CreateDatabase ''test_binary_vec''))) w tr =
          [Call (Database ''test_binary_vec'') (Inl ClientError),
           Call (CreateDatabase ''test_binary_vec'') a]"
    using assms by (simp add: emitted_def drop_if_exists_def prog_defs split: sum.splits)
  then obtain a where a:
    "emitted (seq (drop_if_exists ''test_binary_vec'' ''test_binary_vec_tab'')
                  (sdk (CreateDatabase ''test_binary_vec''))) w tr =
          [Call (Database ''test_binary_vec'') (Inl ClientError),
           Call (CreateDatabase ''test_binary_vec'') a]" by blast
  show ?thesis
    unfolding binary_vector_usage_example_def Let_def
    apply (subst seq_seq_assoc)
    apply (rule exI [of _ a])
    apply (rule emitted_seq_prefix [OF _ _ a])
     apply (intro obeys_intros trace_property_every extends_drop_if_exists; simp add: every_def)
    apply (intro obeys_intros loop_rules trace_property_every; simp add: every_def)
    done
qed

lemma binary_cleanup_no_table:
  assumes "sdk_answer w tr (Database ''test_binary_vec'') = Inr ()"
    and "sdk_answer w (tr @ [Call (Database ''test_binary_vec'') (Inr Done)])
           (DropTable ''test_binary_vec'' ''test_binary_vec_tab'') = Inl (ServerError code)"
  shows "\<exists>a rest. emitted (binary_vector_usage_example n) w tr =
           [Call (Database ''test_binary_vec'') (Inr Done),
            Call (DropTable ''test_binary_vec'' ''test_binary_vec_tab'') (Inl (ServerError code)),
            Sleep 10,
            Call (DropDatabase ''test_binary_vec'') a] @ rest"
proof -
  have "\<exists>a. emitted (drop_if_exists ''test_binary_vec'' ''test_binary_vec_tab'') w tr =
          [Call (Database ''test_binary_vec'') (Inr Done),
           Call (DropTable ''test_binary_vec'' ''test_binary_vec_tab'') (Inl (ServerError code)),
           Sleep 10, Call (DropDatabase ''test_binary_vec'') a]"
    using assms by (simp add: emitted_def drop_if_exists_def prog_defs split: sum.splits)
  then obtain a where a:
    "emitted (drop_if_exists ''test_binary_vec'' ''test_binary_vec_tab'') w tr =
          [Call (Database ''test_binary_vec'') (Inr Done),
           Call (DropTable ''test_binary_vec'' ''test_binary_vec_tab'') (Inl (ServerError code)),
           Sleep 10, Call (DropDatabase ''test_binary_vec'') a]" by blast
  show ?thesis
    unfolding binary_vector_usage_example_def Let_def
    apply (rule exI [of _ a])
    apply (rule emitted_seq_prefix [OF extends_drop_if_exists _ a])
    apply (intro obeys_intros loop_rules trace_property_every; simp add: every_def)
    done
qed

text \<open>
  Claim C3. In \<^verbatim>\<open>clear\<close>, when the lookup of database \<open>book\<close> raises \<open>ClientError\<close> the
  method writes a log line and returns: it drops nothing and does not fail. When the lookup
  succeeds and \<^verbatim>\<open>drop_table\<close> raises a \<open>ServerError\<close> with code \<open>TABLE_NOT_EXIST\<close>, the
  method goes on to sleep 10 seconds and to call \<^verbatim>\<open>drop_database\<close>. The cleanup at the head
  of \<^verbatim>\<open>binary_vector_usage_example\<close> does the same for its database: after a \<open>ClientError\<close>
  the next call is \<^verbatim>\<open>create_database\<close>, and after the server error of \<^verbatim>\<open>drop_table\<close> it sleeps
  10 seconds and calls \<^verbatim>\<open>drop_database\<close>.
\<close>

theorem cleanup_ignores_not_found:
  "(sdk_answer w tr (Database book) = Inl ClientError \<longrightarrow>
      clear w tr =
        (tr @ [Call (Database book) (Inl ClientError), Log ''database book not found.''],
         Return ()))
   \<and> (sdk_answer w tr (Database book) = Inr ()
       \<and> sdk_answer w (tr @ [Call (Database book) (Inr Done)]) (DropTable book book_segments)
           = Inl (ServerError TABLE_NOT_EXIST) \<longrightarrow>
      (\<exists>a. emitted clear w tr =
         [Call (Database book) (Inr Done),
          Call (DropTable book book_segments) (Inl (ServerError TABLE_NOT_EXIST)),
          Log ''drop table error'', Sleep 10, Call (DropDatabase book) a]))
   \<and> (sdk_answer w tr (Database ''test_binary_vec'') = Inl ClientError \<longrightarrow>
      (\<exists>a rest. emitted (binary_vector_usage_example n) w tr =
         [Call (Database ''test_binary_vec'') (Inl ClientError),
          Call (CreateDatabase ''test_binary_vec'') a] @ rest))
   \<and> (sdk_answer w tr (Database ''test_binary_vec'') = Inr ()
       \<and> sdk_answer w (tr @ [Call (Database ''test_binary_vec'') (Inr Done)])
           (DropTable ''test_binary_vec'' ''test_binary_vec_tab'')
           = Inl (ServerError TABLE_NOT_EXIST) \<longrightarrow>
      (\<exists>a rest. emitted (binary_vector_usage_example n) w tr =
         [Call (Database ''test_binary_vec'') (Inr Done),
          Call (DropTable ''test_binary_vec'' ''test_binary_vec_tab'')
            (Inl (ServerError TABLE_NOT_EXIST)),
          Sleep 10,
          Call (DropDatabase ''test_binary_vec'') a] @ rest))"
proof (intro conjI impI)
  assume "sdk_answer w tr (Database book) = Inl ClientError"
  then show "clear w tr =
        (tr @ [Call (Database book) (Inl ClientError), Log ''database book not found.''],
         Return ())"
    by (simp add: clear_def prog_defs)
next
  assume "sdk_answer w tr (Database book) = Inr ()
       \<and> sdk_answer w (tr @ [Call (Database book) (Inr Done)]) (DropTable book book_segments)
           = Inl (ServerError TABLE_NOT_EXIST)"
  then show "\<exists>a. emitted clear w tr =
         [Call (Database book) (Inr Done),
          Call (DropTable book book_segments) (Inl (ServerError TABLE_NOT_EXIST)),
          Log ''drop table error'', Sleep 10, Call (DropDatabase book) a]"
    by (simp add: emitted_def clear_def prog_defs split: sum.splits)
next
  assume "sdk_answer w tr (Database ''test_binary_vec'') = Inl ClientError"
  then show "\<exists>a rest. emitted (binary_vector_usage_example n) w tr =
         [Call (Database ''test_binary_vec'') (Inl ClientError),
          Call (CreateDatabase ''test_binary_vec'') a] @ rest"
    by (rule binary_cleanup_no_database)
next
  assume "sdk_answer w tr (Database ''test_binary_vec'') = Inr ()
       \<and> sdk_answer w (tr @ [Call (Database ''test_binary_vec'') (Inr Done)])
           (DropTable ''test_binary_vec'' ''test_binary_vec_tab'')
           = Inl (ServerError TABLE_NOT_EXIST)"
  then show "\<exists>a rest. emitted (binary_vector_usage_example n) w tr =
         [Call (Database ''test_binary_vec'') (Inr Done),
          Call (DropTable ''test_binary_vec'' ''test_binary_vec_tab'')
            (Inl (ServerError TABLE_NOT_EXIST)),
          Sleep 10,
          Call (DropDatabase ''test_binary_vec'') a] @ rest"
    using binary_cleanup_no_table by blast
qed

theorem cleanup_ignores_not_found_witness:
  "sdk_answer no_database [] (Database book) = Inl ClientError
   \<and> clear no_database [] =
       ([Call (Database book) (Inl ClientError), Log ''database book not found.''], Return ())
   \<and> sdk_answer (table_missing TABLE_NOT_EXIST) [] (Database book) = Inr ()
   \<and> sdk_answer (table_missing TABLE_NOT_EXIST) [Call (Database book) (Inr Done)]
        (DropTable book book_segments) = Inl (ServerError TABLE_NOT_EXIST)
   \<and> emitted clear (table_missing TABLE_NOT_EXIST) [] =
        [Call (Database book) (Inr Done),
         Call (DropTable book book_segments) (Inl (ServerError TABLE_NOT_EXIST)),
         Log ''drop table error'', Sleep 10, Call (DropDatabase book) (Inr Done)]
   \<and> sdk_answer no_database [] (Database ''test_binary_vec'') = Inl ClientError
   \<and> take 2 (emitted (binary_vector_usage_example 0) no_database []) =
        [Call (Database ''test_binary_vec'') (Inl ClientError),
         Call (CreateDatabase ''test_binary_vec'') (Inr Done)]
   \<and> sdk_answer (table_missing TABLE_NOT_EXIST) [] (Database ''test_binary_vec'') = Inr ()
   \<and> sdk_answer (table_missing TABLE_NOT_EXIST) [Call (Database ''test_binary_vec'') (Inr Done)]
        (DropTable ''test_binary_vec'' ''test_binary_vec_tab'')
        = Inl (ServerError TABLE_NOT_EXIST)
   \<and> take 4 (emitted (binary_vector_usage_example 0) (table_missing TABLE_NOT_EXIST) []) =
        [Call (Database ''test_binary_vec'') (Inr Done),
         Call (DropTable ''test_binary_vec'' ''test_binary_vec_tab'')
           (Inl (ServerError TABLE_NOT_EXIST)),
         Sleep 10, Call (DropDatabase ''test_binary_vec'') (Inr Done)]"
proof -
  have "take 2 (emitted (binary_vector_usage_example 0) no_database []) =
        [Call (Database ''test_binary_vec'') (Inl ClientError),
         Call (CreateDatabase ''test_binary_vec'') (Inr Done)]"
    "take 4 (emitted (binary_vector_usage_example 0) (table_missing TABLE_NOT_EXIST) []) =
        [Call (Database ''test_binary_vec'') (Inr Done),
         Call (DropTable ''test_binary_vec'' ''test_binary_vec_tab'')
           (Inl (ServerError TABLE_NOT_EXIST)),
         Sleep 10, Call (DropDatabase ''test_binary_vec'') (Inr Done)]"
    "emitted clear (table_missing TABLE_NOT_EXIST) [] =
        [Call (Database book) (Inr Done),
         Call (DropTable book book_segments) (Inl (ServerError TABLE_NOT_EXIST)),
         Log ''drop table error'', Sleep 10, Call (DropDatabase book) (Inr Done)]"
    by (simp_all add: emitted_def method_defs prog_defs Let_def no_database_def
          table_missing_def quiet_world_def)
  then show ?thesis
    using cleanup_ignores_not_found [of no_database "[]" 0]
      cleanup_ignores_not_found [of "table_missing TABLE_NOT_EXIST" "[]" 0]
    by (simp add: no_database_def table_missing_def quiet_world_def)
qed

section \<open>The calls of a run that returns\<close>

lemma calls_append: "calls (xs @ ys) = calls xs @ calls ys"
  by (induction xs rule: calls.induct) simp_all

lemma visits_Nil: "obeys (every (\<lambda>e. True)) p \<Longrightarrow> obeys (visits f []) p"
  unfolding obeys_def visits_def by blast

lemma visits_consume_bind:
  assumes "obeys (visits f [lm]) p" and "\<And>x. obeys (visits f L) (k x)"
  shows "obeys (visits f (lm # L)) (bind p k)"
  using assms
proof (rule obeys_bind_gen)
  fix e1 e2 s
  assume "visits f [lm] e1 Returned" "visits f L e2 s"
  then show "visits f (lm # L) (e1 @ e2) s"
    using list_emb_append_mono [of "(=)" "[lm]" "map f (calls e1)" L "map f (calls e2)"]
    by (auto simp: visits_def calls_append)
qed (simp add: visits_def)

lemma visits_skip_bind:
  assumes "obeys (every (\<lambda>e. True)) p" and "\<And>x. obeys (visits f L) (k x)"
  shows "obeys (visits f L) (bind p k)"
  using assms
proof (rule obeys_bind_gen)
  fix e1 e2 s
  assume "visits f L e2 s"
  then show "visits f L (e1 @ e2) s"
    using list_emb_append2 [of "(=)" L "map f (calls e2)" "map f (calls e1)"]
    by (auto simp: visits_def calls_append)
qed (simp add: visits_def)

lemma visits_consume_seq:
  "obeys (visits f [lm]) p \<Longrightarrow> obeys (visits f L) q \<Longrightarrow> obeys (visits f (lm # L)) (seq p q)"
  unfolding seq_def by (rule visits_consume_bind)

lemma visits_skip_seq:
  "obeys (every (\<lambda>e. True)) p \<Longrightarrow> obeys (visits f L) q \<Longrightarrow> obeys (visits f L) (seq p q)"
  unfolding seq_def by (rule visits_skip_bind)

lemma visits_append_seq:
  assumes "obeys (visits f La) p" and "obeys (visits f Lb) q"
  shows "obeys (visits f (La @ Lb)) (seq p q)"
  unfolding seq_def
  using assms(1)
proof (rule obeys_bind_gen)
  show "\<And>x. obeys (visits f Lb) q" by (rule assms(2))
next
  fix e1 e2 s
  assume "visits f La e1 Returned" "visits f Lb e2 s"
  then show "visits f (La @ Lb) (e1 @ e2) s"
    using list_emb_append_mono [of "(=)" La "map f (calls e1)" Lb "map f (calls e2)"]
    by (auto simp: visits_def calls_append)
qed (simp add: visits_def)

lemma visits_ask: "f c = lm \<Longrightarrow> obeys (visits f [lm]) (ask oracle wrap c)"
  by (auto simp: obeys_def visits_def ask_def split: sum.splits)

lemma visits_sdk: "f c = lm \<Longrightarrow> obeys (visits f [lm]) (sdk c)"
  unfolding sdk_def by (rule visits_ask)

lemma visits_list_databases: "f ListDatabases = lm \<Longrightarrow> obeys (visits f [lm]) list_databases"
  unfolding list_databases_def by (rule visits_ask)

lemma visits_describe_index:
  "f (DescribeIndex t name) = lm \<Longrightarrow> obeys (visits f [lm]) (describe_index t name)"
  unfolding describe_index_def by (rule visits_ask)

lemma visits_describe_table:
  "f (DescribeTable db t) = lm \<Longrightarrow> obeys (visits f [lm]) (describe_table db t)"
  unfolding describe_table_def by (rule visits_ask)

lemma visits_iterator_next:
  "f (IteratorNext it) = lm \<Longrightarrow> obeys (visits f [lm]) (iterator_next it)"
  unfolding iterator_next_def by (rule visits_ask)

lemma visits_select:
  "f (Select t mk pr lim) = lm \<Longrightarrow> obeys (visits f [lm]) (select t mk pr lim)"
  unfolding select_def by (rule visits_ask)

lemma visits_never: "obeys (visits f L) running"
  by (simp add: obeys_def visits_def running_def)

lemmas extends_rules = obeys_intros loop_rules trace_property_every

lemma visits_wait_table_normal:
  assumes lm: "f (DescribeTable db t) = lm"
  shows "obeys (visits f [lm]) (wait_table_normal db t n)"
proof (cases n)
  case 0
  then show ?thesis by (simp add: visits_never)
next
  case (Suc k)
  show ?thesis
    unfolding Suc wait_table_normal.simps
    by (intro visits_skip_seq visits_consume_bind visits_describe_table visits_Nil lm;
        (intro extends_rules)?; simp add: every_def)
qed

lemma visits_wait_index_normal:
  assumes lm: "f (DescribeIndex t name) = lm"
  shows "obeys (visits f [lm]) (wait_index_normal t name n)"
proof (cases n)
  case 0
  then show ?thesis by (simp add: visits_never)
next
  case (Suc k)
  show ?thesis
    unfolding Suc wait_index_normal.simps
    by (intro visits_skip_seq visits_consume_bind visits_describe_index visits_Nil lm;
        (intro extends_rules)?; simp add: every_def)
qed

lemma visits_try_describe_index:
  assumes q: "\<And>code. obeys (every (\<lambda>e. True)) (q code)"
    and lm: "f (DescribeIndex t name) = lm"
  shows "obeys (visits f [lm])
     (try_except (bind (describe_index t name) (\<lambda>index. ret v)) (except_ServerError q))"
proof (rule obeysI)
  fix w tr
  let ?p = "try_except (bind (describe_index t name) (\<lambda>index. ret v)) (except_ServerError q)"
  show "\<exists>ext. fst (?p w tr) = tr @ ext \<and> visits f [lm] ext (status_of (snd (?p w tr)))"
  proof (cases "describe_index_answer w tr (DescribeIndex t name)")
    case (Inr st)
    then show ?thesis using lm by (simp add: prog_defs visits_def)
  next
    case (Inl e)
    show ?thesis
    proof (cases e)
      case (ServerError code)
      let ?tr1 = "tr @ [Call (DescribeIndex t name) (Inl (ServerError code))]"
      from extendsD [OF q [of code], of w ?tr1] obtain ext where
        "fst (q code w ?tr1) = ?tr1 @ ext" by blast
      moreover have "?p w tr = q code w ?tr1"
        using Inl ServerError by (simp add: prog_defs)
      ultimately show ?thesis using lm by (simp add: visits_def calls_append)
    qed (use Inl in \<open>simp_all add: prog_defs visits_def\<close>)
  qed
qed

lemma visits_wait_index_dropped:
  assumes lm: "f (DescribeIndex t name) = lm"
  shows "obeys (visits f [lm]) (wait_index_dropped t name n)"
proof (cases n)
  case 0
  then show ?thesis by (simp add: visits_never)
next
  case (Suc k)
  show ?thesis
    unfolding Suc wait_index_dropped.simps
    by (intro visits_skip_seq visits_consume_bind visits_try_describe_index visits_Nil lm;
        (intro extends_rules)?; simp add: every_def)
qed

lemma visits_drain_iterator:
  assumes lm: "f (IteratorNext it) = lm"
  shows "obeys (visits f [lm]) (drain_iterator it n)"
proof (cases n)
  case 0
  then show ?thesis by (simp add: visits_never)
next
  case (Suc k)
  show ?thesis
    unfolding Suc drain_iterator.simps
    by (intro visits_skip_seq visits_consume_bind visits_iterator_next visits_Nil lm;
        (intro extends_rules)?; simp add: every_def)
qed

lemma visits_select_loop:
  assumes lm: "f (Select t mk pr 20) = lm"
  shows "obeys (visits f [lm]) (select_loop t pr n mk)"
proof (cases n)
  case 0
  then show ?thesis by (simp add: visits_never)
next
  case (Suc k)
  show ?thesis
    unfolding Suc select_loop.simps
    by (intro visits_skip_seq visits_consume_bind visits_select visits_Nil lm;
        (intro extends_rules)?; simp add: every_def)
qed

lemma visits_try_lookup:
  assumes q: "obeys (every (\<lambda>e. True)) q" and lm: "f c = lm"
  shows "obeys (visits f [lm]) (try_except (bind (sdk c) (\<lambda>_. ret v)) (except_ClientError q))"
proof (rule obeysI)
  fix w tr
  let ?p = "try_except (bind (sdk c) (\<lambda>_. ret v)) (except_ClientError q)"
  show "\<exists>ext. fst (?p w tr) = tr @ ext \<and> visits f [lm] ext (status_of (snd (?p w tr)))"
  proof (cases "sdk_answer w tr c")
    case (Inr st)
    then show ?thesis using lm by (simp add: prog_defs visits_def)
  next
    case (Inl e)
    show ?thesis
    proof (cases e)
      case ClientError
      let ?tr1 = "tr @ [Call c (Inl ClientError)]"
      from extendsD [OF q, of w ?tr1] obtain ext where
        "fst (q w ?tr1) = ?tr1 @ ext" by blast
      moreover have "?p w tr = q w ?tr1"
        using Inl ClientError by (simp add: prog_defs)
      ultimately show ?thesis using lm by (simp add: visits_def calls_append)
    qed (use Inl in \<open>simp_all add: prog_defs visits_def\<close>)
  qed
qed

lemma visits_clear: "obeys (visits landmark [(''database'', None)]) clear"
  unfolding clear_def
  by (intro visits_consume_bind [where L = "[]"] visits_try_lookup visits_Nil;
      (intro extends_rules)?; simp add: every_def landmark_def)

lemma visits_drop_if_exists:
  "obeys (visits landmark [(''database'', None)]) (drop_if_exists d t)"
  unfolding drop_if_exists_def
  by (intro visits_consume_bind [where L = "[]"] visits_try_lookup visits_Nil;
      (intro extends_rules)?; simp add: every_def landmark_def)

lemmas visits_rules =
  visits_consume_seq [OF visits_sdk]
  visits_consume_bind [OF visits_sdk]
  visits_consume_bind [OF visits_list_databases]
  visits_consume_bind [OF visits_describe_index]
  visits_consume_seq [OF visits_wait_table_normal]
  visits_consume_bind [OF visits_wait_table_normal]
  visits_consume_bind [OF visits_wait_index_normal]
  visits_consume_seq [OF visits_wait_index_dropped]
  visits_consume_seq [OF visits_drain_iterator]
  visits_consume_seq [OF visits_drop_if_exists]
  visits_sdk visits_select_loop
  visits_skip_seq visits_skip_bind visits_Nil

lemma visits_create_db_and_table:
  "obeys (visits landmark
     [(''create_database'', None), (''list_databases'', None), (''create_table'', None),
      (''describe_table'', None), (''modify_table'', None)])
     (create_db_and_table ty n)"
  unfolding create_db_and_table_def Let_def
  by (intro visits_rules; (intro extends_rules)?; simp add: every_def landmark_def)

lemma visits_table_methods:
  "obeys (visits landmark [(''database'', None), (''table'', None), (''upsert'', None)])
     upsert_data"
  "obeys (visits landmark [(''database'', None), (''table'', None), (''select'', None)])
     (select_data n)"
  "obeys (visits landmark [(''database'', None), (''table'', None), (''add_fields'', None)])
     change_table_schema"
  "obeys (visits landmark [(''database'', None), (''table'', None), (''stats'', None)])
     show_table_stats"
  "obeys (visits landmark [(''database'', None), (''table'', None), (''query'', None)])
     query_data"
  "obeys (visits landmark [(''database'', None), (''table'', None), (''batch_query'', None)])
     batch_query_data"
  "obeys (visits landmark [(''database'', None), (''table'', None), (''update'', None)])
     update_data"
  "obeys (visits landmark [(''database'', None), (''table'', None), (''delete'', None)])
     delete_data"
  unfolding method_defs Let_def
  by (intro visits_rules; (intro extends_rules)?; simp add: every_def landmark_def)+

lemma visits_vector_search:
  "obeys (visits landmark
     [(''database'', None), (''table'', None), (''rebuild_index'', None),
      (''describe_index'', None),
      (''vector_search'', Some TopK), (''vector_search'', Some Range),
      (''vector_search'', Some Batch), (''vector_search'', Some MultiVector)])
     (vector_search HNSWPQ n)"
  unfolding vector_search_def Let_def
  apply (simp only: simp_thms if_True if_False read_local_Some bind_ret IndexType.distinct)
  by (intro visits_rules; (intro extends_rules)?; simp add: every_def landmark_def)

lemma visits_search_iterator:
  "obeys (visits landmark
     [(''database'', None), (''table'', None),
      (''search_iterator'', None), (''next'', None), (''close'', None),
      (''search_iterator'', None), (''next'', None), (''close'', None)])
     (search_iterator n)"
  unfolding search_iterator_def Let_def
  by (intro visits_rules; (intro extends_rules)?; simp add: every_def landmark_def)

lemma visits_bm25_search:
  "obeys (visits landmark
     [(''database'', None), (''table'', None), (''bm25_search'', Some BM25)])
     bm25_search"
  unfolding bm25_search_def Let_def
  by (intro visits_rules; (intro extends_rules)?; simp add: every_def landmark_def)

lemma visits_hybrid_search:
  "obeys (visits landmark
     [(''database'', None), (''table'', None), (''hybrid_search'', Some Hybrid)])
     (hybrid_search HNSWPQ)"
  unfolding hybrid_search_def Let_def
  apply (simp only: simp_thms if_True if_False read_local_Some bind_ret IndexType.distinct)
  by (intro visits_rules; (intro extends_rules)?; simp add: every_def landmark_def)

lemma visits_drop_and_create_vindex:
  "obeys (visits landmark
     [(''database'', None), (''table'', None), (''drop_index'', None),
      (''describe_index'', None), (''create_indexes'', None), (''modify_index'', None),
      (''describe_index'', None)])
     (drop_and_create_vindex ty n)"
  unfolding drop_and_create_vindex_def Let_def
  by (intro visits_rules; (intro extends_rules)?; simp add: every_def landmark_def)

lemma visits_usage_examples:
  "obeys (visits landmark
     [(''database'', None), (''create_database'', None), (''create_table'', None),
      (''describe_table'', None), (''table'', None), (''upsert'', None),
      (''vector_search'', Some TopK)])
     (binary_vector_usage_example n)"
  "obeys (visits landmark
     [(''database'', None), (''create_database'', None), (''create_table'', None),
      (''describe_table'', None), (''table'', None), (''upsert'', None),
      (''vector_search'', Some TopK)])
     (sparse_vector_usage_example n)"
  unfolding binary_vector_usage_example_def sparse_vector_usage_example_def Let_def
  by (intro visits_rules; (intro extends_rules)?; simp add: every_def landmark_def)+

lemma visits_delete_and_drop:
  "obeys (visits landmark
     [(''database'', None), (''drop_table'', None), (''drop_database'', None),
      (''close'', None)])
     delete_and_drop"
  unfolding delete_and_drop_def
  by (intro visits_rules; (intro extends_rules)?; simp add: every_def landmark_def)

lemma main_visits:
  "obeys (visits landmark
     ([(''database'', None)] @
      [(''create_database'', None), (''list_databases'', None), (''create_table'', None),
       (''describe_table'', None), (''modify_table'', None)] @
      [(''database'', None), (''table'', None), (''upsert'', None)] @
      [(''database'', None), (''table'', None), (''select'', None)] @
      [(''database'', None), (''table'', None), (''add_fields'', None)] @
      [(''database'', None), (''table'', None), (''stats'', None)] @
      [(''database'', None), (''table'', None), (''query'', None)] @
      [(''database'', None), (''table'', None), (''batch_query'', None)] @
      [(''database'', None), (''table'', None), (''rebuild_index'', None),
       (''describe_index'', None),
       (''vector_search'', Some TopK), (''vector_search'', Some Range),
       (''vector_search'', Some Batch), (''vector_search'', Some MultiVector)] @
      [(''database'', None), (''table'', None),
       (''search_iterator'', None), (''next'', None), (''close'', None),
       (''search_iterator'', None), (''next'', None), (''close'', None)] @
      [(''database'', None), (''table'', None), (''bm25_search'', Some BM25)] @
      [(''database'', None), (''table'', None), (''hybrid_search'', Some Hybrid)] @
      [(''database'', None), (''table'', None), (''update'', None)] @
      [(''database'', None), (''table'', None), (''delete'', None)] @
      [(''database'', None), (''table'', None), (''drop_index'', None),
       (''describe_index'', None), (''create_indexes'', None), (''modify_index'', None),
       (''describe_index'', None)] @
      [(''database'', None), (''create_database'', None), (''create_table'', None),
       (''describe_table'', None), (''table'', None), (''upsert'', None),
       (''vector_search'', Some TopK)] @
      [(''database'', None), (''create_database'', None), (''create_table'', None),
       (''describe_table'', None), (''table'', None), (''upsert'', None),
       (''vector_search'', Some TopK)] @
      [(''database'', None), (''drop_table'', None), (''drop_database'', None),
       (''close'', None)]))
     (main n)"
  unfolding main_def Let_def
  by (intro visits_append_seq visits_clear visits_create_db_and_table visits_table_methods
        visits_vector_search visits_search_iterator visits_bm25_search visits_hybrid_search
        visits_drop_and_create_vindex visits_usage_examples visits_delete_and_drop)

lemma visitsD:
  assumes "obeys (visits f L) p" and "snd (p w tr) = Return x"
  shows "subseq L (map f (calls (drop (length tr) (fst (p w tr)))))"
proof -
  from assms(1) obtain ext where
    "fst (p w tr) = tr @ ext" "visits f L ext (status_of (snd (p w tr)))"
    by (rule obeysD)
  with assms(2) show ?thesis by (simp add: visits_def)
qed

lemma subseq_fst_landmark:
  "subseq L (map landmark cs) \<Longrightarrow> subseq (map fst L) (map sdk_method cs)"
proof -
  assume "subseq L (map landmark cs)"
  then have "subseq (map fst L) (map fst (map landmark cs))" by (rule subseq_map)
  then show ?thesis by (simp add: landmark_def comp_def)
qed

lemma subseq_set: "subseq xs ys \<Longrightarrow> set xs \<subseteq> set ys"
  by (auto dest: list_emb_set)

section \<open>The steps of the main program\<close>

lemma in_order_single: "in_order [p] = p"
  by (rule ext, rule ext) (simp split: prod.splits outcome.splits)

lemma in_order_Cons: "in_order (p # q # ps) = seq p (in_order (q # ps))"
  by (rule ext, rule ext) (simp add: seq_def bind_def split: prod.splits outcome.splits)

lemma main_in_order:
  "main n =
     in_order
       [clear, create_db_and_table HNSWPQ n, upsert_data, select_data n, change_table_schema,
        show_table_stats, query_data, batch_query_data, vector_search HNSWPQ n,
        search_iterator n, bm25_search, hybrid_search HNSWPQ, update_data, delete_data,
        drop_and_create_vindex HNSWPQ n, binary_vector_usage_example n,
        sparse_vector_usage_example n, delete_and_drop]"
  unfolding main_def Let_def by (simp only: in_order_Cons in_order_single)

text \<open>
  Claim C6. The main program (lines 638 to 655) is its eighteen steps run in the fixed order
  \<^verbatim>\<open>clear\<close>, \<^verbatim>\<open>create_db_and_table\<close>, \<^verbatim>\<open>upsert_data\<close>, \<^verbatim>\<open>select_data\<close>, \<^verbatim>\<open>change_table_schema\<close>,
  \<^verbatim>\<open>show_table_stats\<close>, \<^verbatim>\<open>query_data\<close>, \<^verbatim>\<open>batch_query_data\<close>, \<^verbatim>\<open>vector_search\<close>,
  \<^verbatim>\<open>search_iterator\<close>, \<^verbatim>\<open>bm25_search\<close>, \<^verbatim>\<open>hybrid_search\<close>, \<^verbatim>\<open>update_data\<close>, \<^verbatim>\<open>delete_data\<close>,
  \<^verbatim>\<open>drop_and_create_vindex\<close>, \<^verbatim>\<open>binary_vector_usage_example\<close>, \<^verbatim>\<open>sparse_vector_usage_example\<close>,
  \<^verbatim>\<open>delete_and_drop\<close>, one after another: a step starts from the trace that the step before
  it has left when it returned, and the first step that does not return ends the run. A
  trace is one sequence of events with each SDK call and its answer in one event, so no two
  calls overlap. A run that returns has called, in this order, the SDK methods listed below
  step by step, and so it has called each of \<^verbatim>\<open>create_database\<close>, \<^verbatim>\<open>create_table\<close>, \<^verbatim>\<open>upsert\<close>,
  \<^verbatim>\<open>query\<close>, \<^verbatim>\<open>vector_search\<close>, \<^verbatim>\<open>bm25_search\<close>, \<^verbatim>\<open>hybrid_search\<close>, \<^verbatim>\<open>update\<close>, \<^verbatim>\<open>delete\<close>,
  \<^verbatim>\<open>drop_table\<close> and \<^verbatim>\<open>drop_database\<close> at least once.
\<close>

theorem main_runs_the_steps_in_order:
  "main n =
     in_order
       [clear, create_db_and_table HNSWPQ n, upsert_data, select_data n, change_table_schema,
        show_table_stats, query_data, batch_query_data, vector_search HNSWPQ n,
        search_iterator n, bm25_search, hybrid_search HNSWPQ, update_data, delete_data,
        drop_and_create_vindex HNSWPQ n, binary_vector_usage_example n,
        sparse_vector_usage_example n, delete_and_drop]
   \<and> (snd (main n w []) = Return () \<longrightarrow>
        subseq
        (concat
          [[''database''],
           [''create_database'', ''list_databases'', ''create_table'', ''describe_table'',
            ''modify_table''],
           [''database'', ''table'', ''upsert''],
           [''database'', ''table'', ''select''],
           [''database'', ''table'', ''add_fields''],
           [''database'', ''table'', ''stats''],
           [''database'', ''table'', ''query''],
           [''database'', ''table'', ''batch_query''],
           [''database'', ''table'', ''rebuild_index'', ''describe_index'', ''vector_search'',
            ''vector_search'', ''vector_search'', ''vector_search''],
           [''database'', ''table'', ''search_iterator'', ''next'', ''close'',
            ''search_iterator'', ''next'', ''close''],
           [''database'', ''table'', ''bm25_search''],
           [''database'', ''table'', ''hybrid_search''],
           [''database'', ''table'', ''update''],
           [''database'', ''table'', ''delete''],
           [''database'', ''table'', ''drop_index'', ''describe_index'', ''create_indexes'',
            ''modify_index'', ''describe_index''],
           [''database'', ''create_database'', ''create_table'', ''describe_table'', ''table'',
            ''upsert'', ''vector_search''],
           [''database'', ''create_database'', ''create_table'', ''describe_table'', ''table'',
            ''upsert'', ''vector_search''],
           [''database'', ''drop_table'', ''drop_database'', ''close'']])
          (map sdk_method (calls (fst (main n w []))))
        \<and> set [''create_database'', ''create_table'', ''upsert'', ''query'', ''vector_search'',
              ''bm25_search'', ''hybrid_search'', ''update'', ''delete'', ''drop_table'',
              ''drop_database'']
            \<subseteq> set (map sdk_method (calls (fst (main n w [])))))"
  (is "_ \<and> (_ \<longrightarrow> subseq ?steps ?names \<and> set ?methods \<subseteq> set ?names)")
proof (intro conjI impI)
  show "main n =
     in_order
       [clear, create_db_and_table HNSWPQ n, upsert_data, select_data n, change_table_schema,
        show_table_stats, query_data, batch_query_data, vector_search HNSWPQ n,
        search_iterator n, bm25_search, hybrid_search HNSWPQ, update_data, delete_data,
        drop_and_create_vindex HNSWPQ n, binary_vector_usage_example n,
        sparse_vector_usage_example n, delete_and_drop]"
    by (rule main_in_order)
next
  assume r: "snd (main n w []) = Return ()"
  from visitsD [OF main_visits r, THEN subseq_fst_landmark]
  show order: "subseq ?steps ?names" by simp
  have "set ?methods \<subseteq> set ?steps" by simp
  also have "\<dots> \<subseteq> set ?names" using order by (rule subseq_set)
  finally show "set ?methods \<subseteq> set ?names" .
qed

lemma friendly_main_returns: "snd (main (Suc (Suc 0)) friendly []) = Return ()"
  by (simp add: friendly_main)

theorem main_runs_the_steps_in_order_witness:
  "snd (main (Suc (Suc 0)) friendly []) = Return ()
   \<and> subseq
        (concat
          [[''database''],
           [''create_database'', ''list_databases'', ''create_table'', ''describe_table'',
            ''modify_table''],
           [''database'', ''table'', ''upsert''],
           [''database'', ''table'', ''select''],
           [''database'', ''table'', ''add_fields''],
           [''database'', ''table'', ''stats''],
           [''database'', ''table'', ''query''],
           [''database'', ''table'', ''batch_query''],
           [''database'', ''table'', ''rebuild_index'', ''describe_index'', ''vector_search'',
            ''vector_search'', ''vector_search'', ''vector_search''],
           [''database'', ''table'', ''search_iterator'', ''next'', ''close'',
            ''search_iterator'', ''next'', ''close''],
           [''database'', ''table'', ''bm25_search''],
           [''database'', ''table'', ''hybrid_search''],
           [''database'', ''table'', ''update''],
           [''database'', ''table'', ''delete''],
           [''database'', ''table'', ''drop_index'', ''describe_index'', ''create_indexes'',
            ''modify_index'', ''describe_index''],
           [''database'', ''create_database'', ''create_table'', ''describe_table'', ''table'',
            ''upsert'', ''vector_search''],
           [''database'', ''create_database'', ''create_table'', ''describe_table'', ''table'',
            ''upsert'', ''vector_search''],
           [''database'', ''drop_table'', ''drop_database'', ''close'']])
          (map sdk_method (calls (fst (main (Suc (Suc 0)) friendly []))))
   \<and> set [''create_database'', ''create_table'', ''upsert'', ''query'', ''vector_search'',
              ''bm25_search'', ''hybrid_search'', ''update'', ''delete'', ''drop_table'',
              ''drop_database'']
       \<subseteq> set (map sdk_method (calls (fst (main (Suc (Suc 0)) friendly []))))"
proof -
  note T = main_runs_the_steps_in_order
    [of "Suc (Suc 0)" friendly, THEN conjunct2, THEN mp, OF friendly_main_returns]
  from friendly_main_returns T show ?thesis by (rule conjI)
qed

section \<open>The wait loops, round by round\<close>

lemma wait_index_dropped_step:
  "describe_index_answer w (tr @ [Sleep 2]) (DescribeIndex t name) = Inr st \<Longrightarrow>
   wait_index_dropped t name (Suc n) w tr =
     wait_index_dropped t name n w
       (tr @ [Sleep 2, Call (DescribeIndex t name) (Inr (IndexDescription st))])"
  "describe_index_answer w (tr @ [Sleep 2]) (DescribeIndex t name) = Inl (ServerError code) \<Longrightarrow>
   code \<noteq> INDEX_NOT_EXIST \<Longrightarrow>
   wait_index_dropped t name (Suc n) w tr =
     wait_index_dropped t name n w
       (tr @ [Sleep 2, Call (DescribeIndex t name) (Inl (ServerError code)), Log ''code''])"
  "describe_index_answer w (tr @ [Sleep 2]) (DescribeIndex t name) =
     Inl (ServerError INDEX_NOT_EXIST) \<Longrightarrow>
   wait_index_dropped t name (Suc n) w tr =
     (tr @ [Sleep 2, Call (DescribeIndex t name) (Inl (ServerError INDEX_NOT_EXIST)),
            Log ''code''], Return ())"
  "describe_index_answer w (tr @ [Sleep 2]) (DescribeIndex t name) = Inl e \<Longrightarrow>
   except_ServerError q e = None \<Longrightarrow>
   wait_index_dropped t name (Suc n) w tr =
     (tr @ [Sleep 2, Call (DescribeIndex t name) (Inl e)], Raise e)"
  by (simp_all add: prog_defs split: exn.splits)

lemma table_rounds_simps:
  "table_rounds db t [] = []"
  "table_rounds db t (s # sts) =
     Sleep 2 # Call (DescribeTable db t) (Inr (TableDescription s)) # table_rounds db t sts"
  "table_rounds db t (xs @ ys) = table_rounds db t xs @ table_rounds db t ys"
  by (simp_all add: table_rounds_def)

lemma index_rounds_simps:
  "index_rounds t name [] = []"
  "index_rounds t name (s # sts) =
     Sleep 2 # Call (DescribeIndex t name) (Inr (IndexDescription s)) # index_rounds t name sts"
  "index_rounds t name (xs @ ys) = index_rounds t name xs @ index_rounds t name ys"
  by (simp_all add: index_rounds_def)

lemma drop_rounds_simps:
  "drop_rounds t name [] = []"
  "drop_rounds t name (a # answers) = drop_round t name a @ drop_rounds t name answers"
  "drop_rounds t name (xs @ ys) = drop_rounds t name xs @ drop_rounds t name ys"
  by (simp_all add: drop_rounds_def)

lemma batches_simps:
  "batches it [] = []"
  "batches it (rows # bs) =
     Call (IteratorNext it) (Inr (RowBatch rows)) # Log ''rows'' # batches it bs"
  "batches it (xs @ ys) = batches it xs @ batches it ys"
  by (simp_all add: batches_def)

lemma wait_table_normal_run:
  "\<exists>sts. TableState_NORMAL \<notin> set sts \<and>
     (case snd (wait_table_normal db t n w tr) of
        Return s \<Rightarrow> s = TableState_NORMAL \<and>
          fst (wait_table_normal db t n w tr) =
            tr @ table_rounds db t (sts @ [TableState_NORMAL])
      | Raise e \<Rightarrow>
          fst (wait_table_normal db t n w tr) =
            tr @ table_rounds db t sts @ [Sleep 2, Call (DescribeTable db t) (Inl e)]
      | Running \<Rightarrow> length sts = n \<and>
          fst (wait_table_normal db t n w tr) = tr @ table_rounds db t sts)"
  (is "\<exists>sts. ?P n tr sts")
proof (induction n arbitrary: tr)
  case 0
  have "?P 0 tr []" by (simp add: running_def table_rounds_simps)
  then show ?case ..
next
  case (Suc n)
  show ?case
  proof (cases "describe_table_answer w (tr @ [Sleep 2]) (DescribeTable db t)")
    case (Inl e)
    then have "?P (Suc n) tr []" by (simp add: prog_defs table_rounds_simps)
    then show ?thesis ..
  next
    case (Inr st)
    show ?thesis
    proof (cases "st = TableState_NORMAL")
      case True
      with Inr have "?P (Suc n) tr []" by (simp add: prog_defs table_rounds_simps)
      then show ?thesis ..
    next
      case False
      let ?tr2 = "tr @ [Sleep 2, Call (DescribeTable db t) (Inr (TableDescription st))]"
      have step: "wait_table_normal db t (Suc n) w tr = wait_table_normal db t n w ?tr2"
        using Inr False by (simp add: prog_defs)
      from Suc [of ?tr2] obtain sts where "?P n ?tr2 sts" ..
      with False have "?P (Suc n) tr (st # sts)"
        unfolding step by (auto simp: table_rounds_simps split: outcome.splits)
      then show ?thesis ..
    qed
  qed
qed

lemma wait_index_normal_run:
  "\<exists>sts. IndexState_NORMAL \<notin> set sts \<and>
     (case snd (wait_index_normal t name n w tr) of
        Return s \<Rightarrow> s = IndexState_NORMAL \<and>
          fst (wait_index_normal t name n w tr) =
            tr @ index_rounds t name (sts @ [IndexState_NORMAL])
      | Raise e \<Rightarrow>
          fst (wait_index_normal t name n w tr) =
            tr @ index_rounds t name sts @ [Sleep 2, Call (DescribeIndex t name) (Inl e)]
      | Running \<Rightarrow> length sts = n \<and>
          fst (wait_index_normal t name n w tr) = tr @ index_rounds t name sts)"
  (is "\<exists>sts. ?P n tr sts")
proof (induction n arbitrary: tr)
  case 0
  have "?P 0 tr []" by (simp add: running_def index_rounds_simps)
  then show ?case ..
next
  case (Suc n)
  show ?case
  proof (cases "describe_index_answer w (tr @ [Sleep 2]) (DescribeIndex t name)")
    case (Inl e)
    then have "?P (Suc n) tr []" by (simp add: prog_defs index_rounds_simps)
    then show ?thesis ..
  next
    case (Inr st)
    show ?thesis
    proof (cases "st = IndexState_NORMAL")
      case True
      with Inr have "?P (Suc n) tr []" by (simp add: prog_defs index_rounds_simps)
      then show ?thesis ..
    next
      case False
      let ?tr2 = "tr @ [Sleep 2, Call (DescribeIndex t name) (Inr (IndexDescription st))]"
      have step: "wait_index_normal t name (Suc n) w tr = wait_index_normal t name n w ?tr2"
        using Inr False by (simp add: prog_defs)
      from Suc [of ?tr2] obtain sts where "?P n ?tr2 sts" ..
      with False have "?P (Suc n) tr (st # sts)"
        unfolding step by (auto simp: index_rounds_simps split: outcome.splits)
      then show ?thesis ..
    qed
  qed
qed

lemma wait_index_dropped_rounds:
  "\<exists>answers. Inl INDEX_NOT_EXIST \<notin> set answers \<and>
     (case snd (wait_index_dropped t name n w tr) of
        Return u \<Rightarrow>
          fst (wait_index_dropped t name n w tr) =
            tr @ drop_rounds t name (answers @ [Inl INDEX_NOT_EXIST])
      | Raise e \<Rightarrow> (\<forall>code. e \<noteq> ServerError code) \<and>
          fst (wait_index_dropped t name n w tr) =
            tr @ drop_rounds t name answers @ [Sleep 2, Call (DescribeIndex t name) (Inl e)]
      | Running \<Rightarrow> length answers = n \<and>
          fst (wait_index_dropped t name n w tr) = tr @ drop_rounds t name answers)"
  (is "\<exists>answers. ?P n tr answers")
proof (induction n arbitrary: tr)
  case 0
  have "?P 0 tr []" by (simp add: running_def drop_rounds_simps)
  then show ?case ..
next
  case (Suc n)
  show ?case
  proof (cases "describe_index_answer w (tr @ [Sleep 2]) (DescribeIndex t name)")
    case (Inr st)
    let ?tr2 = "tr @ [Sleep 2, Call (DescribeIndex t name) (Inr (IndexDescription st))]"
    from Suc [of ?tr2] obtain answers where "?P n ?tr2 answers" ..
    then have "?P (Suc n) tr (Inr st # answers)"
      unfolding wait_index_dropped_step(1) [OF Inr]
      by (auto simp: drop_rounds_simps split: outcome.splits)
    then show ?thesis ..
  next
    case (Inl e)
    show ?thesis
    proof (cases "\<exists>code. e = ServerError code")
      case False
      then have "except_ServerError q e = None" for q :: "ServerErrCode \<Rightarrow> bool prog"
        by (cases e) (simp_all add: except_ServerError_def)
      from wait_index_dropped_step(4) [OF Inl this] False
      have "?P (Suc n) tr []" by (simp add: drop_rounds_simps)
      then show ?thesis ..
    next
      case True
      then obtain code where code: "e = ServerError code" ..
      show ?thesis
      proof (cases "code = INDEX_NOT_EXIST")
        case True
        from wait_index_dropped_step(3) [OF Inl [unfolded code True]]
        have "?P (Suc n) tr []" by (simp add: drop_rounds_simps)
        then show ?thesis ..
      next
        case False
        let ?tr2 = "tr @ [Sleep 2, Call (DescribeIndex t name) (Inl (ServerError code)),
                          Log ''code'']"
        from Suc [of ?tr2] obtain answers where "?P n ?tr2 answers" ..
        with False have "?P (Suc n) tr (Inl code # answers)"
          unfolding wait_index_dropped_step(2) [OF Inl [unfolded code] False]
          by (auto simp: drop_rounds_simps split: outcome.splits)
        then show ?thesis ..
      qed
    qed
  qed
qed

lemma drain_iterator_run:
  "\<exists>bs. [] \<notin> set bs \<and>
     (case snd (drain_iterator it n w tr) of
        Return u \<Rightarrow>
          fst (drain_iterator it n w tr) =
            tr @ batches it bs @ [Call (IteratorNext it) (Inr (RowBatch []))]
      | Raise e \<Rightarrow>
          fst (drain_iterator it n w tr) = tr @ batches it bs @ [Call (IteratorNext it) (Inl e)]
      | Running \<Rightarrow> length bs = n \<and> fst (drain_iterator it n w tr) = tr @ batches it bs)"
  (is "\<exists>bs. ?P n tr bs")
proof (induction n arbitrary: tr)
  case 0
  have "?P 0 tr []" by (simp add: running_def batches_simps)
  then show ?case ..
next
  case (Suc n)
  show ?case
  proof (cases "next_answer w tr (IteratorNext it)")
    case (Inl e)
    then have "?P (Suc n) tr []" by (simp add: prog_defs batches_simps)
    then show ?thesis ..
  next
    case (Inr rows)
    show ?thesis
    proof (cases "rows = []")
      case True
      with Inr have "?P (Suc n) tr []" by (simp add: prog_defs batches_simps)
      then show ?thesis ..
    next
      case False
      let ?tr2 = "tr @ [Call (IteratorNext it) (Inr (RowBatch rows)), Log ''rows'']"
      have step: "drain_iterator it (Suc n) w tr = drain_iterator it n w ?tr2"
        using Inr False by (simp add: prog_defs)
      from Suc [of ?tr2] obtain bs where "?P n ?tr2 bs" ..
      with False have "?P (Suc n) tr (rows # bs)"
        unfolding step by (auto simp: batches_simps split: outcome.splits)
      then show ?thesis ..
    qed
  qed
qed

lemma wait_table_normal_rounds:
  "\<exists>sts. TableState_NORMAL \<notin> set sts \<and>
     (case snd (wait_table_normal db t n w tr) of
        Return s \<Rightarrow> s = TableState_NORMAL \<and>
          emitted (wait_table_normal db t n) w tr = table_rounds db t (sts @ [TableState_NORMAL])
      | Raise e \<Rightarrow>
          emitted (wait_table_normal db t n) w tr =
            table_rounds db t sts @ [Sleep 2, Call (DescribeTable db t) (Inl e)]
      | Running \<Rightarrow> length sts = n \<and>
          emitted (wait_table_normal db t n) w tr = table_rounds db t sts)"
  using wait_table_normal_run [of db t n w tr]
  by (auto simp: emitted_def split: outcome.splits)

lemma wait_index_normal_rounds:
  "\<exists>sts. IndexState_NORMAL \<notin> set sts \<and>
     (case snd (wait_index_normal t name n w tr) of
        Return s \<Rightarrow> s = IndexState_NORMAL \<and>
          emitted (wait_index_normal t name n) w tr =
            index_rounds t name (sts @ [IndexState_NORMAL])
      | Raise e \<Rightarrow>
          emitted (wait_index_normal t name n) w tr =
            index_rounds t name sts @ [Sleep 2, Call (DescribeIndex t name) (Inl e)]
      | Running \<Rightarrow> length sts = n \<and>
          emitted (wait_index_normal t name n) w tr = index_rounds t name sts)"
  using wait_index_normal_run [of t name n w tr]
  by (auto simp: emitted_def split: outcome.splits)

lemma wait_index_dropped_emitted:
  "\<exists>answers. Inl INDEX_NOT_EXIST \<notin> set answers \<and>
     (case snd (wait_index_dropped t name n w tr) of
        Return u \<Rightarrow>
          emitted (wait_index_dropped t name n) w tr =
            drop_rounds t name (answers @ [Inl INDEX_NOT_EXIST])
      | Raise e \<Rightarrow> (\<forall>code. e \<noteq> ServerError code) \<and>
          emitted (wait_index_dropped t name n) w tr =
            drop_rounds t name answers @ [Sleep 2, Call (DescribeIndex t name) (Inl e)]
      | Running \<Rightarrow> length answers = n \<and>
          emitted (wait_index_dropped t name n) w tr = drop_rounds t name answers)"
  using wait_index_dropped_rounds [of t name n w tr]
  by (auto simp: emitted_def split: outcome.splits)

lemma drain_iterator_emitted:
  "\<exists>bs. [] \<notin> set bs \<and>
     (case snd (drain_iterator it n w tr) of
        Return u \<Rightarrow>
          emitted (drain_iterator it n) w tr =
            batches it bs @ [Call (IteratorNext it) (Inr (RowBatch []))]
      | Raise e \<Rightarrow>
          emitted (drain_iterator it n) w tr = batches it bs @ [Call (IteratorNext it) (Inl e)]
      | Running \<Rightarrow> length bs = n \<and> emitted (drain_iterator it n) w tr = batches it bs)"
  using drain_iterator_run [of it n w tr]
  by (auto simp: emitted_def split: outcome.splits)

section \<open>The exceptions that the script catches\<close>

lemma trace_property_uncaught_ends_run: "trace_property uncaught_ends_run"
  unfolding trace_property_def uncaught_ends_run_def
  by (auto simp: last_append)

lemma main_uncaught_ends_run: "obeys uncaught_ends_run (main n)"
  unfolding main_def method_defs Let_def
  by (intro obeys_intros loop_rules trace_property_uncaught_ends_run)
     (auto simp: uncaught_ends_run_def)

lemma wait_index_dropped_run:
  "\<exists>ext. fst (wait_index_dropped t name n w tr) = tr @ ext \<and>
     (if snd (wait_index_dropped t name n w tr) = Return ()
      then \<exists>pre. ext = pre @ [Call (DescribeIndex t name) (Inl (ServerError INDEX_NOT_EXIST)),
                               Log ''code'']
             \<and> Call (DescribeIndex t name) (Inl (ServerError INDEX_NOT_EXIST)) \<notin> set pre
      else Call (DescribeIndex t name) (Inl (ServerError INDEX_NOT_EXIST)) \<notin> set ext)"
  (is "\<exists>ext. ?P n tr ext")
proof (induction n arbitrary: tr)
  case 0
  show ?case by (simp add: running_def)
next
  case (Suc n)
  let ?X = "Call (DescribeIndex t name) (Inl (ServerError INDEX_NOT_EXIST))"
  show ?case
  proof (cases "describe_index_answer w (tr @ [Sleep 2]) (DescribeIndex t name)")
    case (Inr st)
    let ?tr1 = "tr @ [Sleep 2, Call (DescribeIndex t name) (Inr (IndexDescription st))]"
    from Suc.IH [of ?tr1] obtain ext where ext: "?P n ?tr1 ext" ..
    have "?P (Suc n) tr ([Sleep 2, Call (DescribeIndex t name) (Inr (IndexDescription st))] @ ext)"
      using ext unfolding wait_index_dropped_step(1) [OF Inr]
      by (auto split: if_splits intro: exI [of _ "Sleep 2 # Call (DescribeIndex t name) (Inr (IndexDescription st)) # pre" for pre])
    then show ?thesis ..
  next
    case (Inl e)
    show ?thesis
    proof (cases "\<exists>code. e = ServerError code")
      case False
      then have "except_ServerError q e = None" for q :: "ServerErrCode \<Rightarrow> bool prog"
        by (cases e) (simp_all add: except_ServerError_def)
      from wait_index_dropped_step(4) [OF Inl this]
      have "?P (Suc n) tr [Sleep 2, Call (DescribeIndex t name) (Inl e)]"
        using False by auto
      then show ?thesis ..
    next
      case True
      then obtain code where code: "e = ServerError code" ..
      show ?thesis
      proof (cases "code = INDEX_NOT_EXIST")
        case True
        from wait_index_dropped_step(3) [OF Inl [unfolded code True]]
        have "?P (Suc n) tr [Sleep 2, ?X, Log ''code'']"
          by (auto intro: exI [of _ "[Sleep 2]"])
        then show ?thesis ..
      next
        case False
        let ?tr1 = "tr @ [Sleep 2, Call (DescribeIndex t name) (Inl (ServerError code)),
                          Log ''code'']"
        from Suc.IH [of ?tr1] obtain ext where ext: "?P n ?tr1 ext" ..
        have "?P (Suc n) tr
               ([Sleep 2, Call (DescribeIndex t name) (Inl (ServerError code)), Log ''code'']
                @ ext)"
          using ext False
          unfolding wait_index_dropped_step(2) [OF Inl [unfolded code] False]
          by (auto split: if_splits intro: exI [of _ "Sleep 2 # Call (DescribeIndex t name) (Inl (ServerError code)) # Log ''code'' # pre" for pre])
        then show ?thesis ..
      qed
    qed
  qed
qed

lemma wait_index_dropped_exit:
  "(snd (wait_index_dropped t name n w tr) = Return ()) =
     (Call (DescribeIndex t name) (Inl (ServerError INDEX_NOT_EXIST))
        \<in> set (emitted (wait_index_dropped t name n) w tr))"
  "Call (DescribeIndex t name) (Inl (ServerError INDEX_NOT_EXIST))
     \<in> set (emitted (wait_index_dropped t name n) w tr) \<Longrightarrow>
   \<exists>pre. emitted (wait_index_dropped t name n) w tr =
           pre @ [Call (DescribeIndex t name) (Inl (ServerError INDEX_NOT_EXIST)), Log ''code'']
         \<and> Call (DescribeIndex t name) (Inl (ServerError INDEX_NOT_EXIST)) \<notin> set pre"
  using wait_index_dropped_run [of t name n w tr]
  by (auto simp: emitted_def split: if_splits)

lemma catch_site_types: "catch_site c e \<Longrightarrow> e = ClientError \<or> (\<exists>code. e = ServerError code)"
  by (cases "(c, e)" rule: catch_site.cases) simp_all


lemma sdk_down_main:
  "main n sdk_down [] =
     ([Call (Database book) (Inl (OtherError ''down''))], Raise (OtherError ''down''))"
proof -
  have "clear sdk_down [] =
     ([Call (Database book) (Inl (OtherError ''down''))], Raise (OtherError ''down''))"
    by (simp add: clear_def prog_defs sdk_down_def quiet_world_def)
  then show ?thesis
    unfolding main_def Let_def by (rule seq_Raise)
qed


section \<open>Search modes and search iterators\<close>

lemma UNIV_search_mode: "(UNIV :: search_mode set) = {TopK, Range, Batch, MultiVector, BM25, Hybrid}"
  by (auto intro: search_mode.exhaust)

lemma landmark_mode:
  "(nm, Some md) \<in> set (map landmark cs) \<Longrightarrow> md \<in> set (List.map_filter mode_of cs)"
proof -
  assume "(nm, Some md) \<in> set (map landmark cs)"
  then obtain c where "c \<in> set cs" "mode_of c = Some md"
    by (auto simp: landmark_def)
  then show ?thesis
    by (force simp: map_filter_def)
qed

lemma main_searches:
  assumes "snd (main n w []) = Return ()"
  shows "subseq
     [(''vector_search'', Some TopK), (''vector_search'', Some Range),
      (''vector_search'', Some Batch), (''vector_search'', Some MultiVector),
      (''search_iterator'', None), (''next'', None), (''close'', None),
      (''search_iterator'', None), (''next'', None), (''close'', None),
      (''bm25_search'', Some BM25), (''hybrid_search'', Some Hybrid)]
     (map landmark (calls (fst (main n w []))))"
proof -
  have "subseq
     [(''vector_search'', Some TopK), (''vector_search'', Some Range),
      (''vector_search'', Some Batch), (''vector_search'', Some MultiVector),
      (''search_iterator'', None), (''next'', None), (''close'', None),
      (''search_iterator'', None), (''next'', None), (''close'', None),
      (''bm25_search'', Some BM25), (''hybrid_search'', Some Hybrid)]
     ([(''database'', None)] @
      [(''create_database'', None), (''list_databases'', None), (''create_table'', None),
       (''describe_table'', None), (''modify_table'', None)] @
      [(''database'', None), (''table'', None), (''upsert'', None)] @
      [(''database'', None), (''table'', None), (''select'', None)] @
      [(''database'', None), (''table'', None), (''add_fields'', None)] @
      [(''database'', None), (''table'', None), (''stats'', None)] @
      [(''database'', None), (''table'', None), (''query'', None)] @
      [(''database'', None), (''table'', None), (''batch_query'', None)] @
      [(''database'', None), (''table'', None), (''rebuild_index'', None),
       (''describe_index'', None),
       (''vector_search'', Some TopK), (''vector_search'', Some Range),
       (''vector_search'', Some Batch), (''vector_search'', Some MultiVector)] @
      [(''database'', None), (''table'', None),
       (''search_iterator'', None), (''next'', None), (''close'', None),
       (''search_iterator'', None), (''next'', None), (''close'', None)] @
      [(''database'', None), (''table'', None), (''bm25_search'', Some BM25)] @
      [(''database'', None), (''table'', None), (''hybrid_search'', Some Hybrid)] @
      [(''database'', None), (''table'', None), (''update'', None)] @
      [(''database'', None), (''table'', None), (''delete'', None)] @
      [(''database'', None), (''table'', None), (''drop_index'', None),
       (''describe_index'', None), (''create_indexes'', None), (''modify_index'', None),
       (''describe_index'', None)] @
      [(''database'', None), (''create_database'', None), (''create_table'', None),
       (''describe_table'', None), (''table'', None), (''upsert'', None),
       (''vector_search'', Some TopK)] @
      [(''database'', None), (''create_database'', None), (''create_table'', None),
       (''describe_table'', None), (''table'', None), (''upsert'', None),
       (''vector_search'', Some TopK)] @
      [(''database'', None), (''drop_table'', None), (''drop_database'', None),
       (''close'', None)])"
    by simp
  also from visitsD [OF main_visits assms]
  have "subseq \<dots> (map landmark (calls (fst (main n w []))))" by simp
  finally show ?thesis .
qed

lemma drain_iterator_Return:
  "drain_iterator it n w tr = (tr', Return x) \<Longrightarrow>
   \<exists>bs. [] \<notin> set bs \<and>
        tr' = tr @ batches it bs @ [Call (IteratorNext it) (Inr (RowBatch []))]"
proof (induction n arbitrary: tr)
  case 0
  then show ?case by (simp add: running_def)
next
  case (Suc n)
  show ?case
  proof (cases "next_answer w tr (IteratorNext it)")
    case (Inl e)
    with Suc.prems show ?thesis by (simp add: prog_defs)
  next
    case (Inr rows)
    show ?thesis
    proof (cases "rows = []")
      case True
      with Suc.prems Inr have "tr' = tr @ [Call (IteratorNext it) (Inr (RowBatch []))]"
        by (simp add: prog_defs)
      then have "[] \<notin> set [] \<and>
          tr' = tr @ batches it [] @ [Call (IteratorNext it) (Inr (RowBatch []))]"
        by (simp add: batches_def)
      then show ?thesis by blast
    next
      case False
      let ?tr1 = "tr @ [Call (IteratorNext it) (Inr (RowBatch rows)), Log ''rows'']"
      from Suc.prems Inr False have "drain_iterator it n w ?tr1 = (tr', Return x)"
        by (simp add: prog_defs)
      from Suc.IH [OF this] obtain bs where bs: "[] \<notin> set bs"
        "tr' = ?tr1 @ batches it bs @ [Call (IteratorNext it) (Inr (RowBatch []))]"
        by blast
      then have "[] \<notin> set (rows # bs) \<and>
          tr' = tr @ batches it (rows # bs) @ [Call (IteratorNext it) (Inr (RowBatch []))]"
        using False by (simp add: batches_def)
      then show ?thesis by blast
    qed
  qed
qed

lemma card_search_mode: "card (UNIV :: search_mode set) = 6"
  by (simp add: UNIV_search_mode)

lemma main_modes:
  assumes "snd (main n w []) = Return ()"
  shows "length (modes_issued (fst (main n w []))) = 6"
proof -
  let ?cs = "calls (fst (main n w []))"
  note sub = main_searches [OF assms, THEN subseq_set, THEN subsetD]
  have "md \<in> set (List.map_filter mode_of ?cs)" for md
    by (cases md) (rule landmark_mode, rule sub, simp)+
  then have "set (List.map_filter mode_of ?cs) = UNIV"
    by blast
  then show ?thesis
    by (simp add: modes_issued_def length_remdups_card_conv card_search_mode)
qed

lemma seq_ReturnD:
  "seq p q w tr = (tr', Return y) \<Longrightarrow>
   \<exists>x tr1. p w tr = (tr1, Return x) \<and> q w tr1 = (tr', Return y)"
  by (auto simp: seq_def bind_def split: prod.splits outcome.splits)

lemma sdk_ReturnD: "sdk c w tr = (tr1, Return x) \<Longrightarrow> tr1 = tr @ [Call c (Inr Done)]"
  by (auto simp: sdk_def ask_def split: sum.splits)

lemma log_ReturnD: "log msg w tr = (tr1, Return x) \<Longrightarrow> tr1 = tr @ [Log msg]"
  by (auto simp: log_def)

lemma search_iterator_Return:
  assumes "search_iterator n w tr = (tr', Return ())"
  shows "\<exists>bs1 bs2. [] \<notin> set bs1 \<and> [] \<notin> set bs2 \<and>
     tr' = tr @
       [Call (Database book) (Inr Done),
        Call (Table book book_segments) (Inr Done),
        Log ''Start search iterator for TopK search'',
        Call (SearchIterator ''iterator1'' (book, book_segments)
                (VectorTopkSearchRequest ''vector'' query_vector (Some 1000) None
                   (Some (ef 2000))) 1000 10000) (Inr Done)] @
       batches ''iterator1'' bs1 @
       [Call (IteratorNext ''iterator1'') (Inr (RowBatch [])),
        Call (IteratorClose ''iterator1'') (Inr Done),
        Log ''Finish search iterator for TopK search'',
        Log ''Start search iterator for multi-vector search'',
        Call (SearchIterator ''iterator2'' (book, book_segments)
                (MultiVectorSearchRequest
                   [VectorTopkSearchRequest ''vector'' query_vector (Some 1000) None
                      (Some (ef 2000)),
                    VectorTopkSearchRequest ''vector'' query_vector (Some 1000) None
                      (Some (ef 2000))]
                   (WeightedRank [''1.0'', ''1.0'']) 1000 None) 1000 10000) (Inr Done)] @
       batches ''iterator2'' bs2 @
       [Call (IteratorNext ''iterator2'') (Inr (RowBatch [])),
        Call (IteratorClose ''iterator2'') (Inr Done),
        Log ''Finish search iterator for multi-vector search'']"
  using assms unfolding search_iterator_def Let_def
  apply (clarsimp dest!: seq_ReturnD sdk_ReturnD log_ReturnD drain_iterator_Return)
  subgoal for bs bsa
    by (rule exI [of _ bs], simp, rule exI [of _ bsa], simp)
  done


lemma friendly_search_iterator:
  "search_iterator (Suc (Suc 0)) friendly [] =
     ([Call (Database book) (Inr Done),
       Call (Table book book_segments) (Inr Done),
       Log ''Start search iterator for TopK search'',
       Call (SearchIterator ''iterator1'' (book, book_segments)
               (VectorTopkSearchRequest ''vector'' query_vector (Some 1000) None
                  (Some (ef 2000))) 1000 10000) (Inr Done),
       Call (IteratorNext ''iterator1'') (Inr (RowBatch [Row ''6'' (BookVector 6)])),
       Log ''rows'',
       Call (IteratorNext ''iterator1'') (Inr (RowBatch [])),
       Call (IteratorClose ''iterator1'') (Inr Done),
       Log ''Finish search iterator for TopK search'',
       Log ''Start search iterator for multi-vector search'',
       Call (SearchIterator ''iterator2'' (book, book_segments)
               (MultiVectorSearchRequest
                  [VectorTopkSearchRequest ''vector'' query_vector (Some 1000) None
                     (Some (ef 2000)),
                   VectorTopkSearchRequest ''vector'' query_vector (Some 1000) None
                     (Some (ef 2000))]
                  (WeightedRank [''1.0'', ''1.0'']) 1000 None) 1000 10000) (Inr Done),
       Call (IteratorNext ''iterator2'') (Inr (RowBatch [Row ''6'' (BookVector 6)])),
       Log ''rows'',
       Call (IteratorNext ''iterator2'') (Inr (RowBatch [])),
       Call (IteratorClose ''iterator2'') (Inr Done),
       Log ''Finish search iterator for multi-vector search''], Return ())"
  by (simp add: search_iterator_def friendly_defs)



section \<open>Waiting for \<open>NORMAL\<close>\<close>

lemma trace_property_waits_well: "trace_property waits_well"
  by (simp add: trace_property_def waits_well_def)

lemma wait_step_Bad: "foldl wait_step Bad es = Bad"
  by (induction es) simp_all

lemma wait_step_Ended: "foldl wait_step Ended es \<noteq> Bad \<Longrightarrow> es = []"
  by (cases es) (simp_all add: wait_step_Bad)

lemma awaited_poll: "awaited opener = Some (poll, normal) \<Longrightarrow> awaited poll = None"
  by (cases opener) auto

lemma wait_step_start:
  assumes "foldl wait_step st (Call c a # B) \<noteq> Bad" and "awaited c = Some pn"
  shows "st = Idle"
proof (cases st)
  case (Asleep opener)
  with assms(1) have "Some c = map_option fst (awaited opener)"
    by (auto simp: wait_step_Bad split: if_splits)
  then obtain normal where "awaited opener = Some (c, normal)" by (cases "awaited opener") auto
  from awaited_poll [OF this] assms(2) show ?thesis by simp
qed (use assms in \<open>simp_all add: wait_step_Bad\<close>)

lemma waits_well_after_start:
  assumes "foldl wait_step Idle T \<noteq> Bad"
    and "i < length T" and "T ! i = Call c a" and "awaited c = Some pn"
  shows "foldl wait_step (case a of Inl x \<Rightarrow> Ended | Inr r \<Rightarrow> Due c) (drop (Suc i) T) \<noteq> Bad"
proof -
  have T: "T = take i T @ Call c a # drop (Suc i) T"
    using assms(2,3) by (metis id_take_nth_drop)
  define st where "st = foldl wait_step Idle (take i T)"
  have run: "foldl wait_step st (Call c a # drop (Suc i) T) \<noteq> Bad"
    using assms(1) by (subst (asm) T) (simp add: st_def)
  then have "st = Idle" using assms(4) by (rule wait_step_start)
  with run assms(4) show ?thesis by simp
qed

lemma Due_awaits:
  "foldl wait_step (Due opener) B \<noteq> Bad \<Longrightarrow> awaited opener = Some (poll, normal) \<Longrightarrow>
   awaits poll normal B"
  by (induction poll normal B rule: awaits.induct)
     (auto simp: wait_step_Bad split: if_splits sum.splits dest: wait_step_Ended)

lemma waits_well_awaits:
  assumes "waits_well T s" and "i < length T" and "T ! i = Call c a"
    and "awaited c = Some (poll, normal)"
  shows "awaits poll normal (drop (Suc i) T)"
proof -
  from assms(1) have "foldl wait_step Idle T \<noteq> Bad"
    by (simp add: waits_well_def)
  from waits_well_after_start [OF this assms(2,3,4)]
  show ?thesis
    by (cases a) (auto dest: wait_step_Ended Due_awaits [OF _ assms(4)])
qed

lemma wait_table_normal_from_Due:
  assumes "awaited opener = Some (DescribeTable db t, TableDescription TableState_NORMAL)"
  shows "foldl wait_step (Due opener) (emitted (wait_table_normal db t n) w tr) =
     (case snd (wait_table_normal db t n w tr) of
        Return s \<Rightarrow> Idle | Raise e \<Rightarrow> Ended | Running \<Rightarrow> Due opener)"
proof -
  have rounds: "foldl wait_step (Due opener) (table_rounds db t sts @ es) =
      foldl wait_step (Due opener) es" if "TableState_NORMAL \<notin> set sts" for sts es
    using that assms by (induction sts) (auto simp: table_rounds_simps)
  from wait_table_normal_run [of db t n w tr] obtain sts where
    sts: "TableState_NORMAL \<notin> set sts" and
    run: "case snd (wait_table_normal db t n w tr) of
        Return s \<Rightarrow> s = TableState_NORMAL \<and>
          fst (wait_table_normal db t n w tr) =
            tr @ table_rounds db t (sts @ [TableState_NORMAL])
      | Raise e \<Rightarrow>
          fst (wait_table_normal db t n w tr) =
            tr @ table_rounds db t sts @ [Sleep 2, Call (DescribeTable db t) (Inl e)]
      | Running \<Rightarrow> length sts = n \<and>
          fst (wait_table_normal db t n w tr) = tr @ table_rounds db t sts"
    by blast
  show ?thesis
    using run rounds [OF sts] rounds [OF sts, of "[]"] assms
    by (auto simp: emitted_def table_rounds_simps split: outcome.splits)
qed

lemma wait_index_normal_from_Due:
  assumes "awaited opener = Some (DescribeIndex t name, IndexDescription IndexState_NORMAL)"
  shows "foldl wait_step (Due opener) (emitted (wait_index_normal t name n) w tr) =
     (case snd (wait_index_normal t name n w tr) of
        Return s \<Rightarrow> Idle | Raise e \<Rightarrow> Ended | Running \<Rightarrow> Due opener)"
proof -
  have rounds: "foldl wait_step (Due opener) (index_rounds t name sts @ es) =
      foldl wait_step (Due opener) es" if "IndexState_NORMAL \<notin> set sts" for sts es
    using that assms by (induction sts) (auto simp: index_rounds_simps)
  from wait_index_normal_run [of t name n w tr] obtain sts where
    sts: "IndexState_NORMAL \<notin> set sts" and
    run: "case snd (wait_index_normal t name n w tr) of
        Return s \<Rightarrow> s = IndexState_NORMAL \<and>
          fst (wait_index_normal t name n w tr) =
            tr @ index_rounds t name (sts @ [IndexState_NORMAL])
      | Raise e \<Rightarrow>
          fst (wait_index_normal t name n w tr) =
            tr @ index_rounds t name sts @ [Sleep 2, Call (DescribeIndex t name) (Inl e)]
      | Running \<Rightarrow> length sts = n \<and>
          fst (wait_index_normal t name n w tr) = tr @ index_rounds t name sts"
    by blast
  show ?thesis
    using run rounds [OF sts] rounds [OF sts, of "[]"] assms
    by (auto simp: emitted_def index_rounds_simps split: outcome.splits)
qed

lemma opener_block:
  assumes aw: "awaited c \<noteq> None"
    and ext: "obeys (every (\<lambda>e. True)) loop"
    and loop: "\<And>w tr. foldl wait_step (Due c) (emitted loop w tr) =
       (case snd (loop w tr) of Return s \<Rightarrow> Idle | Raise e \<Rightarrow> Ended | Running \<Rightarrow> Due c)"
  shows "obeys waits_well (seq (sdk c) loop)"
proof (rule obeysI)
  fix w tr
  show "\<exists>ext. fst (seq (sdk c) loop w tr) = tr @ ext \<and>
              waits_well ext (status_of (snd (seq (sdk c) loop w tr)))"
  proof (cases "sdk_answer w tr c")
    case (Inl e)
    then show ?thesis using aw by (simp add: prog_defs waits_well_def)
  next
    case (Inr u)
    let ?tr1 = "tr @ [Call c (Inr Done)]"
    from extendsD [OF ext, of w ?tr1] obtain E where E: "fst (loop w ?tr1) = ?tr1 @ E" ..
    then have em: "emitted loop w ?tr1 = E" by (simp add: emitted_def)
    have "seq (sdk c) loop w tr = loop w ?tr1"
      using Inr by (simp add: prog_defs)
    with E loop [of w ?tr1] aw show ?thesis
      unfolding em by (auto simp: waits_well_def split: outcome.splits)
  qed
qed

lemma create_table_block:
  "obeys waits_well (seq (sdk (CreateTable db t r p fs ixs)) (wait_table_normal db t n))"
  by (rule opener_block)
     (simp, intro loop_rules trace_property_every, simp_all add: every_def,
      rule wait_table_normal_from_Due, simp)

lemma rebuild_index_block:
  "obeys waits_well (seq (sdk (RebuildIndex t name)) (wait_index_normal t name n))"
  by (rule opener_block)
     (simp, intro loop_rules trace_property_every, simp_all add: every_def,
      rule wait_index_normal_from_Due, simp)

lemma create_wait_assoc:
  "seq (sdk (CreateTable db t r p fs ixs)) (bind (wait_table_normal db' t' n) f) =
     bind (seq (sdk (CreateTable db t r p fs ixs)) (wait_table_normal db' t' n)) f"
  "seq (sdk (CreateTable db t r p fs ixs)) (seq (wait_table_normal db' t' n) q) =
     seq (seq (sdk (CreateTable db t r p fs ixs)) (wait_table_normal db' t' n)) q"
  by (rule seq_bind_assoc, rule seq_seq_assoc)

lemma rebuild_wait_assoc:
  "seq (sdk (RebuildIndex t name)) (bind (wait_index_normal t' name' n) f) =
     bind (seq (sdk (RebuildIndex t name)) (wait_index_normal t' name' n)) f"
  by (rule seq_bind_assoc)

lemma create_db_and_table_waits_well: "obeys waits_well (create_db_and_table ty n)"
  unfolding create_db_and_table_def Let_def create_wait_assoc
  by (intro create_table_block obeys_intros loop_rules trace_property_waits_well)
     (simp_all add: waits_well_def)

lemma vector_search_waits_well: "obeys waits_well (vector_search ty n)"
  unfolding vector_search_def Let_def rebuild_wait_assoc
  by (intro rebuild_index_block obeys_intros loop_rules trace_property_waits_well)
     (simp_all add: waits_well_def)

lemma main_waits_well: "obeys waits_well (main n)"
  unfolding main_def method_defs Let_def create_wait_assoc rebuild_wait_assoc
  by (intro create_table_block rebuild_index_block obeys_intros loop_rules
        trace_property_waits_well)
     (simp_all add: waits_well_def)

lemma bind_ReturnD:
  "bind p f w tr = (tr', Return y) \<Longrightarrow>
   \<exists>x tr1. p w tr = (tr1, Return x) \<and> f x w tr1 = (tr', Return y)"
  by (auto simp: bind_def split: prod.splits outcome.splits)

lemma sleep_ReturnD: "sleep d w tr = (tr1, Return x) \<Longrightarrow> tr1 = tr @ [Sleep d]"
  by (auto simp: sleep_def)

lemma list_databases_ReturnD:
  "list_databases w tr = (tr1, Return dbs) \<Longrightarrow>
   tr1 = tr @ [Call ListDatabases (Inr (DatabaseList dbs))]"
  by (auto simp: list_databases_def ask_def split: sum.splits)

lemma for_each_log_ReturnD:
  "for_each xs (\<lambda>x. log msg) w tr = (tr1, Return u) \<Longrightarrow>
   tr1 = tr @ replicate (length xs) (Log msg)"
  by (simp add: for_each_log)

lemma wait_table_normal_ReturnD:
  assumes "wait_table_normal db t n w tr = (tr', Return s)"
  shows "\<exists>sts. TableState_NORMAL \<notin> set sts \<and>
     tr' = tr @ table_rounds db t (sts @ [TableState_NORMAL])"
  using wait_table_normal_run [of db t n w tr] assms by auto

lemma wait_index_normal_ReturnD:
  assumes "wait_index_normal t name n w tr = (tr', Return s)"
  shows "\<exists>sts. IndexState_NORMAL \<notin> set sts \<and>
     tr' = tr @ index_rounds t name (sts @ [IndexState_NORMAL])"
  using wait_index_normal_run [of t name n w tr] assms by auto

lemma create_db_and_table_Return:
  assumes "create_db_and_table ty n w tr = (tr', Return ())"
  shows "\<exists>dbs vp sts. TableState_NORMAL \<notin> set sts \<and>
     tr' = tr @
       [Call (CreateDatabase book) (Inr Done), Call ListDatabases (Inr (DatabaseList dbs))] @
       replicate (length dbs) (Log ''database'') @
       [Call (CreateTable book book_segments 3 1 book_fields
                (Some [VectorIndex ''vector_idx'' ty ''vector'' L2 (Some vp) None,
                       SecondaryIndex ''book_name_idx'' ''bookName'',
                       FilteringIndex ''book_name_filtering_idx'' [''bookName''],
                       InvertedIndex ''book_segment_inverted_idx'' [''segment'']
                         (InvertedIndexParams CHINESE_ANALYZER COARSE_MODE True) [ANALYZED]]))
          (Inr Done)] @
       table_rounds book book_segments (sts @ [TableState_NORMAL]) @
       [Sleep 10, Log ''table'', Call (ModifyTable book book_segments ''0.1'') (Inr Done),
        Sleep 10, Log ''table'']"
proof -
  have ty: "ty = HNSW \<or> ty = HNSWPQ \<or> ty = PUCK"
    using unsupported_create_db_and_table(2) [of ty n w tr] assms by auto
  show ?thesis
    using assms ty unfolding create_db_and_table_def Let_def
    apply (elim disjE)
      apply (clarsimp simp: bind_ret dest!: bind_ReturnD seq_ReturnD sdk_ReturnD log_ReturnD
        sleep_ReturnD list_databases_ReturnD for_each_log_ReturnD wait_table_normal_ReturnD)
      apply blast
      apply (clarsimp simp: bind_ret dest!: bind_ReturnD seq_ReturnD sdk_ReturnD log_ReturnD
        sleep_ReturnD list_databases_ReturnD for_each_log_ReturnD wait_table_normal_ReturnD)
     apply blast
      apply (clarsimp simp: bind_ret dest!: bind_ReturnD seq_ReturnD sdk_ReturnD log_ReturnD
        sleep_ReturnD list_databases_ReturnD for_each_log_ReturnD wait_table_normal_ReturnD)
    apply blast
    done
qed

lemma raise_ReturnD: "raise e w tr = (tr', Return x) \<Longrightarrow> False"
  by (simp add: raise_def)

lemmas ReturnD = bind_ReturnD seq_ReturnD sdk_ReturnD log_ReturnD sleep_ReturnD
  list_databases_ReturnD for_each_log_ReturnD wait_table_normal_ReturnD
  wait_index_normal_ReturnD raise_ReturnD

lemma vector_search_Return:
  assumes "vector_search ty n w tr = (tr', Return ())"
  shows "\<exists>sts r1 r2 r3 r4. IndexState_NORMAL \<notin> set sts \<and>
     tr' = tr @
       [Call (Database book) (Inr Done), Call (Table book book_segments) (Inr Done),
        Call (RebuildIndex (book, book_segments) ''vector_idx'') (Inr Done)] @
       index_rounds (book, book_segments) ''vector_idx'' (sts @ [IndexState_NORMAL]) @
       [Call (VectorSearch (book, book_segments) r1 None) (Inr Done),
        Log ''topk search res'',
        Call (VectorSearch (book, book_segments) r2 None) (Inr Done),
        Log ''range search res'',
        Call (VectorSearch (book, book_segments) r3 None) (Inr Done),
        Log ''batch search res'',
        Call (VectorSearch (book, book_segments) r4 (Some [''id''])) (Inr Done),
        Log ''multi vector search res'']"
  using assms unfolding vector_search_def Let_def
  by (cases ty; simp add: read_local_None read_local_Some bind_ret bind_raise;
      clarsimp dest!: ReturnD; blast)


lemma friendly_waits:
  "3 < length (emitted (create_db_and_table HNSWPQ (Suc (Suc 0))) friendly [])"
  "emitted (create_db_and_table HNSWPQ (Suc (Suc 0))) friendly [] ! 3 =
     Call (CreateTable book book_segments 3 1 book_fields
             (Some [VectorIndex ''vector_idx'' HNSWPQ ''vector'' L2
                      (Some (HNSWPQParams 16 200 4 ''1.0'')) None,
                    SecondaryIndex ''book_name_idx'' ''bookName'',
                    FilteringIndex ''book_name_filtering_idx'' [''bookName''],
                    InvertedIndex ''book_segment_inverted_idx'' [''segment'']
                      (InvertedIndexParams CHINESE_ANALYZER COARSE_MODE True) [ANALYZED]]))
       (Inr Done)"
  "drop (Suc 3) (emitted (create_db_and_table HNSWPQ (Suc (Suc 0))) friendly []) =
     [Sleep 2,
      Call (DescribeTable book book_segments) (Inr (TableDescription (OtherTableState ''CREATING''))),
      Sleep 2,
      Call (DescribeTable book book_segments) (Inr (TableDescription TableState_NORMAL)),
      Sleep 10, Log ''table'', Call (ModifyTable book book_segments ''0.1'') (Inr Done),
      Sleep 10, Log ''table'']"
  "2 < length (emitted (vector_search HNSWPQ (Suc (Suc 0))) friendly [])"
  "emitted (vector_search HNSWPQ (Suc (Suc 0))) friendly [] ! 2 =
     Call (RebuildIndex (book, book_segments) ''vector_idx'') (Inr Done)"
  "take 5 (drop (Suc 2) (emitted (vector_search HNSWPQ (Suc (Suc 0))) friendly [])) =
     [Sleep 2,
      Call (DescribeIndex (book, book_segments) ''vector_idx'')
        (Inr (IndexDescription (OtherIndexState ''BUILDING''))),
      Sleep 2,
      Call (DescribeIndex (book, book_segments) ''vector_idx'')
        (Inr (IndexDescription IndexState_NORMAL)),
      Call (VectorSearch (book, book_segments)
              (VectorTopkSearchRequest ''vector'' query_vector (Some 10) (Some san_guo_yan_yi)
                 (Some (ef 200))) None) (Inr Done)]"
  "snd (create_db_and_table HNSWPQ (Suc (Suc 0)) friendly []) = Return ()"
  "snd (vector_search HNSWPQ (Suc (Suc 0)) friendly []) = Return ()"
  by (simp_all add: emitted_def method_defs friendly_defs)

lemma friendly_loops:
  "wait_table_normal book book_segments (Suc (Suc 0)) friendly
       [Call (CreateTable book book_segments 3 1 book_fields None) (Inr Done)] =
     ([Call (CreateTable book book_segments 3 1 book_fields None) (Inr Done),
       Sleep 2,
       Call (DescribeTable book book_segments)
         (Inr (TableDescription (OtherTableState ''CREATING''))),
       Sleep 2,
       Call (DescribeTable book book_segments) (Inr (TableDescription TableState_NORMAL))],
      Return TableState_NORMAL)"
  "wait_index_normal (book, book_segments) ''vector_idx'' (Suc (Suc 0)) friendly
       [Call (RebuildIndex (book, book_segments) ''vector_idx'') (Inr Done)] =
     ([Call (RebuildIndex (book, book_segments) ''vector_idx'') (Inr Done),
       Sleep 2,
       Call (DescribeIndex (book, book_segments) ''vector_idx'')
         (Inr (IndexDescription (OtherIndexState ''BUILDING''))),
       Sleep 2,
       Call (DescribeIndex (book, book_segments) ''vector_idx'')
         (Inr (IndexDescription IndexState_NORMAL))],
      Return IndexState_NORMAL)"
  by (simp_all add: friendly_defs)

lemma friendly_main_waits:
  "7 < length (fst (main (Suc (Suc 0)) friendly []))"
  "fst (main (Suc (Suc 0)) friendly []) ! 7 =
     Call (CreateTable book book_segments 3 1 book_fields
             (Some [VectorIndex ''vector_idx'' HNSWPQ ''vector'' L2
                      (Some (HNSWPQParams 16 200 4 ''1.0'')) None,
                    SecondaryIndex ''book_name_idx'' ''bookName'',
                    FilteringIndex ''book_name_filtering_idx'' [''bookName''],
                    InvertedIndex ''book_segment_inverted_idx'' [''segment'']
                      (InvertedIndexParams CHINESE_ANALYZER COARSE_MODE True) [ANALYZED]]))
       (Inr Done)"
  "47 < length (fst (main (Suc (Suc 0)) friendly []))"
  "fst (main (Suc (Suc 0)) friendly []) ! 47 =
     Call (RebuildIndex (book, book_segments) ''vector_idx'') (Inr Done)"
  using friendly_waits(1,2,4,5) by (simp_all add: friendly_main nth_append friendly_lengths)


section \<open>The poll interval\<close>

lemma spaced_weaken: "spaced None es \<Longrightarrow> spaced st es"
proof (induction es arbitrary: st)
  case Nil
  show ?case by simp
next
  case (Cons e es)
  show ?case
  proof (cases e)
    case (Call c a)
    with Cons.prems show ?thesis by (cases c) simp_all
  next
    case (Sleep d)
    with Cons show ?thesis by simp
  next
    case (Log msg)
    with Cons show ?thesis by simp
  qed
qed

lemma spaced_append: "spaced st xs \<Longrightarrow> spaced None ys \<Longrightarrow> spaced st (xs @ ys)"
proof (induction xs arbitrary: st)
  case Nil
  then show ?case by (simp add: spaced_weaken)
next
  case (Cons e xs)
  then show ?case by (cases e) simp_all
qed

lemma trace_property_polls_two_apart: "trace_property polls_two_apart"
  by (simp add: trace_property_def polls_two_apart_def spaced_append)

lemma spaced_table_rounds:
  "spaced (Some (c, 0)) (table_rounds db t sts @ es) =
     spaced (Some (if sts = [] then c else DescribeTable db t, 0)) es"
  by (induction sts arbitrary: c) (simp_all add: table_rounds_simps)

lemma spaced_index_rounds:
  "spaced (Some (c, 0)) (index_rounds t name sts @ es) =
     spaced (Some (if sts = [] then c else DescribeIndex t name, 0)) es"
  by (induction sts arbitrary: c) (simp_all add: index_rounds_simps)

lemma spaced_drop_rounds:
  "spaced (Some (c, 0)) (drop_rounds t name answers @ es) =
     spaced (Some (if answers = [] then c else DescribeIndex t name, 0)) es"
proof (induction answers arbitrary: c)
  case Nil
  show ?case by (simp add: drop_rounds_simps)
next
  case (Cons a answers)
  then show ?case by (cases a) (simp_all add: drop_rounds_simps)
qed

lemma spaced_rounds_only:
  "spaced (Some (c, 0)) (table_rounds db t sts)"
  "spaced (Some (c, 0)) (index_rounds tb name ists)"
  "spaced (Some (c, 0)) (drop_rounds tb name answers)"
  using spaced_table_rounds [of c db t sts "[]"] spaced_index_rounds [of c tb name ists "[]"]
    spaced_drop_rounds [of c tb name answers "[]"]
  by simp_all

lemma spaced_wait_table_normal:
  "spaced (Some (c, 0)) (emitted (wait_table_normal db t n) w tr)"
proof -
  from wait_table_normal_rounds [of db t n w tr] obtain sts where
    run: "case snd (wait_table_normal db t n w tr) of
        Return s \<Rightarrow> s = TableState_NORMAL \<and>
          emitted (wait_table_normal db t n) w tr = table_rounds db t (sts @ [TableState_NORMAL])
      | Raise e \<Rightarrow>
          emitted (wait_table_normal db t n) w tr =
            table_rounds db t sts @ [Sleep 2, Call (DescribeTable db t) (Inl e)]
      | Running \<Rightarrow> length sts = n \<and>
          emitted (wait_table_normal db t n) w tr = table_rounds db t sts"
    by blast
  show ?thesis
  proof (cases "snd (wait_table_normal db t n w tr)")
    case (Return s)
    with run show ?thesis by (simp add: spaced_rounds_only)
  next
    case (Raise e)
    with run show ?thesis by (simp add: spaced_table_rounds)
  next
    case Running
    with run show ?thesis by (simp add: spaced_rounds_only)
  qed
qed

lemma spaced_wait_index_normal:
  "spaced (Some (c, 0)) (emitted (wait_index_normal t name n) w tr)"
proof -
  from wait_index_normal_rounds [of t name n w tr] obtain sts where
    run: "case snd (wait_index_normal t name n w tr) of
        Return s \<Rightarrow> s = IndexState_NORMAL \<and>
          emitted (wait_index_normal t name n) w tr =
            index_rounds t name (sts @ [IndexState_NORMAL])
      | Raise e \<Rightarrow>
          emitted (wait_index_normal t name n) w tr =
            index_rounds t name sts @ [Sleep 2, Call (DescribeIndex t name) (Inl e)]
      | Running \<Rightarrow> length sts = n \<and>
          emitted (wait_index_normal t name n) w tr = index_rounds t name sts"
    by blast
  show ?thesis
  proof (cases "snd (wait_index_normal t name n w tr)")
    case (Return s)
    with run show ?thesis by (simp add: spaced_rounds_only)
  next
    case (Raise e)
    with run show ?thesis by (simp add: spaced_index_rounds)
  next
    case Running
    with run show ?thesis by (simp add: spaced_rounds_only)
  qed
qed

lemma spaced_wait_index_dropped:
  "spaced (Some (c, 0)) (emitted (wait_index_dropped t name n) w tr)"
proof -
  from wait_index_dropped_emitted [of t name n w tr] obtain answers where
    run: "case snd (wait_index_dropped t name n w tr) of
        Return u \<Rightarrow>
          emitted (wait_index_dropped t name n) w tr =
            drop_rounds t name (answers @ [Inl INDEX_NOT_EXIST])
      | Raise e \<Rightarrow> (\<forall>code. e \<noteq> ServerError code) \<and>
          emitted (wait_index_dropped t name n) w tr =
            drop_rounds t name answers @ [Sleep 2, Call (DescribeIndex t name) (Inl e)]
      | Running \<Rightarrow> length answers = n \<and>
          emitted (wait_index_dropped t name n) w tr = drop_rounds t name answers"
    by blast
  show ?thesis
  proof (cases "snd (wait_index_dropped t name n w tr)")
    case (Return s)
    with run show ?thesis by (simp add: spaced_rounds_only)
  next
    case (Raise e)
    with run show ?thesis by (simp add: spaced_drop_rounds)
  next
    case Running
    with run show ?thesis by (simp add: spaced_rounds_only)
  qed
qed

lemma spaced_block:
  assumes c: "poll_ok None c"
    and ext: "obeys (every (\<lambda>e. True)) loop"
    and loop: "\<And>w tr. spaced (Some (c, 0)) (emitted loop w tr)"
  shows "obeys polls_two_apart (seq (sdk c) loop)"
proof (rule obeysI)
  fix w tr
  show "\<exists>ext. fst (seq (sdk c) loop w tr) = tr @ ext \<and>
              polls_two_apart ext (status_of (snd (seq (sdk c) loop w tr)))"
  proof (cases "sdk_answer w tr c")
    case (Inl e)
    then show ?thesis using c by (simp add: prog_defs polls_two_apart_def)
  next
    case (Inr u)
    let ?tr1 = "tr @ [Call c (Inr Done)]"
    from extendsD [OF ext, of w ?tr1] obtain E where E: "fst (loop w ?tr1) = ?tr1 @ E" ..
    then have em: "emitted loop w ?tr1 = E" by (simp add: emitted_def)
    have "seq (sdk c) loop w tr = loop w ?tr1"
      using Inr by (simp add: prog_defs)
    with E loop [of w ?tr1] c show ?thesis
      unfolding em by (simp add: polls_two_apart_def)
  qed
qed

lemma create_table_spaced:
  "obeys polls_two_apart
     (seq (sdk (CreateTable db t r p fs ixs)) (wait_table_normal db' t' n))"
  by (rule spaced_block)
     (simp, intro loop_rules trace_property_every, simp_all add: every_def,
      rule spaced_wait_table_normal)

lemma rebuild_index_spaced:
  "obeys polls_two_apart
     (seq (sdk (RebuildIndex t name)) (wait_index_normal t' name' n))"
  by (rule spaced_block)
     (simp, intro loop_rules trace_property_every, simp_all add: every_def,
      rule spaced_wait_index_normal)

lemma drop_index_spaced:
  "obeys polls_two_apart
     (seq (sdk (DropIndex t name)) (wait_index_dropped t' name' n))"
  by (rule spaced_block)
     (simp, intro loop_rules trace_property_every, simp_all add: every_def,
      rule spaced_wait_index_dropped)

lemma modify_index_spaced:
  "obeys polls_two_apart
     (seq (sdk (ModifyIndex t name b s)) (bind (describe_index t' name') (\<lambda>index. log msg)))"
  by (auto simp: obeys_def prog_defs polls_two_apart_def split: sum.splits)

lemma drop_wait_assoc:
  "seq (sdk (DropIndex t name)) (seq (wait_index_dropped t' name' n) q) =
     seq (seq (sdk (DropIndex t name)) (wait_index_dropped t' name' n)) q"
  by (rule seq_seq_assoc)

lemma main_polls_two_apart: "obeys polls_two_apart (main n)"
  unfolding main_def method_defs Let_def create_wait_assoc rebuild_wait_assoc drop_wait_assoc
  by (intro create_table_spaced rebuild_index_spaced drop_index_spaced modify_index_spaced
        obeys_intros obeys_drain_iterator obeys_select_loop trace_property_polls_two_apart)
     (simp_all add: polls_two_apart_def)

lemma spaced_nth:
  "spaced st T \<Longrightarrow> i < length T \<Longrightarrow> T ! i = Call c a \<Longrightarrow>
   poll_ok (foldl since_step st (take i T)) c"
proof (induction T arbitrary: st i)
  case Nil
  then show ?case by simp
next
  case (Cons e T)
  show ?case
  proof (cases i)
    case 0
    with Cons.prems show ?thesis by simp
  next
    case (Suc j)
    with Cons.prems have "spaced (since_step st e) T" "j < length T" "T ! j = Call c a"
      by (cases e; simp)+
    from Cons.IH [OF this] show ?thesis using Suc by simp
  qed
qed

lemma main_poll_ok:
  assumes "i < length (fst (main n w []))" and "fst (main n w []) ! i = Call c a"
  shows "poll_ok (last_call_and_sleep (take i (fst (main n w [])))) c"
  unfolding last_call_and_sleep_def
  using trace_of_obeys [OF main_polls_two_apart, of n w] assms
  by (auto simp: polls_two_apart_def intro: spaced_nth)

lemma poll_ok_table:
  "poll_ok st (DescribeTable db t) \<Longrightarrow> \<exists>c. st = Some (c, 2)"
  by (auto split: option.splits)

lemma poll_ok_index:
  "poll_ok st (DescribeIndex t name) \<Longrightarrow>
   (\<exists>c. st = Some (c, 2)) \<or> (\<exists>c. modifies_index c \<and> st = Some (c, 0))"
  by (auto split: option.splits)


lemma friendly_main_head:
  "take 12 (fst (main (Suc (Suc 0)) friendly [])) =
     [Call (Database book) (Inr Done),
      Call (DropTable book book_segments) (Inr Done),
      Sleep 10,
      Call (DropDatabase book) (Inr Done),
      Call (CreateDatabase book) (Inr Done),
      Call ListDatabases (Inr (DatabaseList [book])),
      Log ''database'',
      Call (CreateTable book book_segments 3 1 book_fields
              (Some [VectorIndex ''vector_idx'' HNSWPQ ''vector'' L2
                       (Some (HNSWPQParams 16 200 4 ''1.0'')) None,
                     SecondaryIndex ''book_name_idx'' ''bookName'',
                     FilteringIndex ''book_name_filtering_idx'' [''bookName''],
                     InvertedIndex ''book_segment_inverted_idx'' [''segment'']
                       (InvertedIndexParams CHINESE_ANALYZER COARSE_MODE True) [ANALYZED]]))
        (Inr Done),
      Sleep 2,
      Call (DescribeTable book book_segments)
        (Inr (TableDescription (OtherTableState ''CREATING''))),
      Sleep 2,
      Call (DescribeTable book book_segments) (Inr (TableDescription TableState_NORMAL))]"
proof -
  have c: "emitted clear friendly [] =
     [Call (Database book) (Inr Done), Call (DropTable book book_segments) (Inr Done),
      Sleep 10, Call (DropDatabase book) (Inr Done)]"
    by (simp add: emitted_def method_defs friendly_defs)
  have t: "take 8 (emitted (create_db_and_table HNSWPQ (Suc (Suc 0))) friendly []) =
     [Call (CreateDatabase book) (Inr Done),
      Call ListDatabases (Inr (DatabaseList [book])),
      Log ''database'',
      Call (CreateTable book book_segments 3 1 book_fields
              (Some [VectorIndex ''vector_idx'' HNSWPQ ''vector'' L2
                       (Some (HNSWPQParams 16 200 4 ''1.0'')) None,
                     SecondaryIndex ''book_name_idx'' ''bookName'',
                     FilteringIndex ''book_name_filtering_idx'' [''bookName''],
                     InvertedIndex ''book_segment_inverted_idx'' [''segment'']
                       (InvertedIndexParams CHINESE_ANALYZER COARSE_MODE True) [ANALYZED]]))
        (Inr Done),
      Sleep 2,
      Call (DescribeTable book book_segments)
        (Inr (TableDescription (OtherTableState ''CREATING''))),
      Sleep 2,
      Call (DescribeTable book book_segments) (Inr (TableDescription TableState_NORMAL))]"
    by (simp add: emitted_def method_defs friendly_defs)
  show ?thesis
    by (simp add: friendly_main c friendly_lengths t)
qed

lemma friendly_main_polls:
  "fst (main (Suc (Suc 0)) friendly []) ! 11 =
     Call (DescribeTable book book_segments) (Inr (TableDescription TableState_NORMAL))"
  "fst (main (Suc (Suc 0)) friendly []) ! 10 = Sleep 2"
  "last_call_and_sleep (take 9 (fst (main (Suc (Suc 0)) friendly []))) =
     Some (CreateTable book book_segments 3 1 book_fields
             (Some [VectorIndex ''vector_idx'' HNSWPQ ''vector'' L2
                      (Some (HNSWPQParams 16 200 4 ''1.0'')) None,
                    SecondaryIndex ''book_name_idx'' ''bookName'',
                    FilteringIndex ''book_name_filtering_idx'' [''bookName''],
                    InvertedIndex ''book_segment_inverted_idx'' [''segment'']
                      (InvertedIndexParams CHINESE_ANALYZER COARSE_MODE True) [ANALYZED]]), 2)"
  "last_call_and_sleep (take 11 (fst (main (Suc (Suc 0)) friendly []))) =
     Some (DescribeTable book book_segments, 2)"
proof -
  let ?T = "fst (main (Suc (Suc 0)) friendly [])"
  have nth: "?T ! k = take 12 ?T ! k" if "k < 12" for k
    using that by simp
  have tk: "take 9 ?T = take 9 (take 12 ?T)" "take 11 ?T = take 11 (take 12 ?T)"
    by simp_all
  show "?T ! 11 =
     Call (DescribeTable book book_segments) (Inr (TableDescription TableState_NORMAL))"
    by (subst nth) (simp_all add: friendly_main_head)
  show "?T ! 10 = Sleep 2"
    by (subst nth) (simp_all add: friendly_main_head)
  show "last_call_and_sleep (take 9 ?T) =
     Some (CreateTable book book_segments 3 1 book_fields
             (Some [VectorIndex ''vector_idx'' HNSWPQ ''vector'' L2
                      (Some (HNSWPQParams 16 200 4 ''1.0'')) None,
                    SecondaryIndex ''book_name_idx'' ''bookName'',
                    FilteringIndex ''book_name_filtering_idx'' [''bookName''],
                    InvertedIndex ''book_segment_inverted_idx'' [''segment'']
                      (InvertedIndexParams CHINESE_ANALYZER COARSE_MODE True) [ANALYZED]]), 2)"
    unfolding tk friendly_main_head by (simp add: last_call_and_sleep_def)
  show "last_call_and_sleep (take 11 ?T) = Some (DescribeTable book book_segments, 2)"
    unfolding tk friendly_main_head by (simp add: last_call_and_sleep_def)
qed

lemma friendly_wait_index_dropped:
  "snd (wait_index_dropped (book, book_segments) ''vector_idx'' (Suc 0) friendly
          [Call (DropIndex (book, book_segments) ''vector_idx'') (Inr Done)]) = Return ()"
  "emitted (wait_index_dropped (book, book_segments) ''vector_idx'' (Suc 0)) friendly
     [Call (DropIndex (book, book_segments) ''vector_idx'') (Inr Done)] =
   [Sleep 2,
    Call (DescribeIndex (book, book_segments) ''vector_idx'')
      (Inl (ServerError INDEX_NOT_EXIST)),
    Log ''code'']"
  by (simp_all add: emitted_def friendly_defs)


section \<open>The index list of a supported index type\<close>

lemma sdk_then:
  assumes "obeys (every (\<lambda>e. True)) q"
  shows "\<exists>a rest. fst (seq (sdk c) q w tr) = tr @ Call c a # rest"
proof (cases "sdk_answer w tr c")
  case (Inl e)
  then have "fst (seq (sdk c) q w tr) = tr @ Call c (Inl e) # []"
    by (simp add: prog_defs)
  then show ?thesis by blast
next
  case (Inr u)
  let ?tr1 = "tr @ [Call c (Inr Done)]"
  from extendsD [OF assms, of w ?tr1] obtain ext where "fst (q w ?tr1) = ?tr1 @ ext" ..
  moreover have "seq (sdk c) q w tr = q w ?tr1"
    using Inr by (simp add: prog_defs)
  ultimately have "fst (seq (sdk c) q w tr) = tr @ Call c (Inr Done) # ext" by simp
  then show ?thesis by blast
qed

lemma bind_sdk_ok:
  "sdk_answer w tr c = Inr u \<Longrightarrow> bind (sdk c) f w tr = f () w (tr @ [Call c (Inr Done)])"
  by (simp add: prog_defs)

lemma bind_list_databases_ok:
  "list_databases_answer w tr ListDatabases = Inr dbs \<Longrightarrow>
   bind list_databases f w tr = f dbs w (tr @ [Call ListDatabases (Inr (DatabaseList dbs))])"
  by (simp add: prog_defs)

lemma seq_for_each_log:
  "seq (for_each xs (\<lambda>x. log msg)) q w tr = q w (tr @ replicate (length xs) (Log msg))"
  by (simp add: seq_def bind_def for_each_log)

lemma create_db_and_table_reaches_create_table:
  assumes cd: "sdk_answer w tr (CreateDatabase book) = Inr ()"
    and ld: "list_databases_answer w (tr @ [Call (CreateDatabase book) (Inr Done)]) ListDatabases
               = Inr dbs"
  shows "create_db_and_table HNSW n w tr =
        seq (sdk (CreateTable book book_segments 3 1 book_fields
             (Some [VectorIndex ''vector_idx'' HNSW ''vector'' L2 (Some (HNSWParams 32 200)) None,
                    SecondaryIndex ''book_name_idx'' ''bookName'',
                    FilteringIndex ''book_name_filtering_idx'' [''bookName''],
                    InvertedIndex ''book_segment_inverted_idx'' [''segment'']
                      (InvertedIndexParams CHINESE_ANALYZER COARSE_MODE True) [ANALYZED]])))
          (bind (wait_table_normal book book_segments n) (\<lambda>table.
             seq (sleep 10)
            (seq (log ''table'')
            (seq (sdk (ModifyTable book book_segments ''0.1''))
            (seq (sleep 10)
                 (log ''table''))))))
          w (((tr @ [Call (CreateDatabase book) (Inr Done)]) @
                [Call ListDatabases (Inr (DatabaseList dbs))])
                @ replicate (length dbs) (Log ''database''))"
    and "create_db_and_table HNSWPQ n w tr =
        seq (sdk (CreateTable book book_segments 3 1 book_fields
             (Some [VectorIndex ''vector_idx'' HNSWPQ ''vector'' L2 (Some (HNSWPQParams 16 200 4 ''1.0'')) None,
                    SecondaryIndex ''book_name_idx'' ''bookName'',
                    FilteringIndex ''book_name_filtering_idx'' [''bookName''],
                    InvertedIndex ''book_segment_inverted_idx'' [''segment'']
                      (InvertedIndexParams CHINESE_ANALYZER COARSE_MODE True) [ANALYZED]])))
          (bind (wait_table_normal book book_segments n) (\<lambda>table.
             seq (sleep 10)
            (seq (log ''table'')
            (seq (sdk (ModifyTable book book_segments ''0.1''))
            (seq (sleep 10)
                 (log ''table''))))))
          w (((tr @ [Call (CreateDatabase book) (Inr Done)]) @
                [Call ListDatabases (Inr (DatabaseList dbs))])
                @ replicate (length dbs) (Log ''database''))"
    and "create_db_and_table PUCK n w tr =
        seq (sdk (CreateTable book book_segments 3 1 book_fields
             (Some [VectorIndex ''vector_idx'' PUCK ''vector'' L2 (Some (PUCKParams 5 5)) None,
                    SecondaryIndex ''book_name_idx'' ''bookName'',
                    FilteringIndex ''book_name_filtering_idx'' [''bookName''],
                    InvertedIndex ''book_segment_inverted_idx'' [''segment'']
                      (InvertedIndexParams CHINESE_ANALYZER COARSE_MODE True) [ANALYZED]])))
          (bind (wait_table_normal book book_segments n) (\<lambda>table.
             seq (sleep 10)
            (seq (log ''table'')
            (seq (sdk (ModifyTable book book_segments ''0.1''))
            (seq (sleep 10)
                 (log ''table''))))))
          w (((tr @ [Call (CreateDatabase book) (Inr Done)]) @
                [Call ListDatabases (Inr (DatabaseList dbs))])
                @ replicate (length dbs) (Log ''database''))"
  unfolding create_db_and_table_def Let_def
  by (simp_all only: bind_sdk_ok [OF cd] bind_list_databases_ok [OF ld] seq_for_each_log
        bind_ret if_True append_Nil append_Cons IndexType.distinct if_False simp_thms)

lemma supported_create_table_call:
  assumes ty: "ty = HNSW \<or> ty = HNSWPQ \<or> ty = PUCK"
    and cd: "sdk_answer w tr (CreateDatabase book) = Inr ()"
    and ld: "list_databases_answer w (tr @ [Call (CreateDatabase book) (Inr Done)]) ListDatabases
               = Inr dbs"
  shows "\<exists>vp a rest. emitted (create_db_and_table ty n) w tr =
     [Call (CreateDatabase book) (Inr Done), Call ListDatabases (Inr (DatabaseList dbs))] @
     replicate (length dbs) (Log ''database'') @
     Call (CreateTable book book_segments 3 1 book_fields
             (Some [VectorIndex ''vector_idx'' ty ''vector'' L2 (Some vp) None,
                    SecondaryIndex ''book_name_idx'' ''bookName'',
                    FilteringIndex ''book_name_filtering_idx'' [''bookName''],
                    InvertedIndex ''book_segment_inverted_idx'' [''segment'']
                      (InvertedIndexParams CHINESE_ANALYZER COARSE_MODE True) [ANALYZED]])) a
       # rest"
proof -
  let ?tr3 = "((tr @ [Call (CreateDatabase book) (Inr Done)]) @
                [Call ListDatabases (Inr (DatabaseList dbs))])
                @ replicate (length dbs) (Log ''database'')"
  let ?cont = "bind (wait_table_normal book book_segments n) (\<lambda>table.
       seq (sleep 10)
      (seq (log ''table'')
      (seq (sdk (ModifyTable book book_segments ''0.1''))
      (seq (sleep 10)
           (log ''table'')))))"
  let ?create = "\<lambda>vp. CreateTable book book_segments 3 1 book_fields
             (Some [VectorIndex ''vector_idx'' ty ''vector'' L2 (Some vp) None,
                    SecondaryIndex ''book_name_idx'' ''bookName'',
                    FilteringIndex ''book_name_filtering_idx'' [''bookName''],
                    InvertedIndex ''book_segment_inverted_idx'' [''segment'']
                      (InvertedIndexParams CHINESE_ANALYZER COARSE_MODE True) [ANALYZED]])"
  have cont: "obeys (every (\<lambda>e. True)) ?cont"
    by (intro extends_rules) (simp_all add: every_def)
  from ty create_db_and_table_reaches_create_table [OF cd ld, of n]
  have "\<exists>vp. create_db_and_table ty n w tr = seq (sdk (?create vp)) ?cont w ?tr3"
    by blast
  then obtain vp where run: "create_db_and_table ty n w tr = seq (sdk (?create vp)) ?cont w ?tr3"
    ..
  from sdk_then [OF cont, of "?create vp" w ?tr3] obtain a rest where
    "fst (seq (sdk (?create vp)) ?cont w ?tr3) = ?tr3 @ Call (?create vp) a # rest"
    by blast
  with run have "fst (create_db_and_table ty n w tr) = ?tr3 @ Call (?create vp) a # rest"
    by (simp only:)
  then have "emitted (create_db_and_table ty n) w tr =
     [Call (CreateDatabase book) (Inr Done), Call ListDatabases (Inr (DatabaseList dbs))] @
     replicate (length dbs) (Log ''database'') @ Call (?create vp) a # rest"
    by (simp add: emitted_def)
  then show ?thesis by blast
qed

lemma drop_and_create_vindex_reaches_create_indexes:
  assumes wait: "drop_index_and_wait n w tr = (tr', Return ())"
  shows "drop_and_create_vindex HNSW n w tr =
        seq (sdk (CreateIndexes (book, book_segments)
                   [VectorIndex ''vector_idx'' HNSW ''vector'' L2 (Some (HNSWParams 16 200)) (Some False)]))
          (seq (sleep 1)
          (seq (sdk (ModifyIndex (book, book_segments) ''vector_idx'' True
                       ''2024-01-01 00:00:00''))
          (bind (describe_index (book, book_segments) ''vector_idx'') (\<lambda>index.
                log ''index''))))
          w tr'"
    and "drop_and_create_vindex HNSWPQ n w tr =
        seq (sdk (CreateIndexes (book, book_segments)
                   [VectorIndex ''vector_idx'' HNSWPQ ''vector'' L2 (Some (HNSWPQParams 16 200 4 ''1.0'')) (None)]))
          (seq (sleep 1)
          (seq (sdk (ModifyIndex (book, book_segments) ''vector_idx'' True
                       ''2024-01-01 00:00:00''))
          (bind (describe_index (book, book_segments) ''vector_idx'') (\<lambda>index.
                log ''index''))))
          w tr'"
    and "drop_and_create_vindex PUCK n w tr =
        seq (sdk (CreateIndexes (book, book_segments)
                   [VectorIndex ''vector_idx'' PUCK ''vector'' L2 (Some (PUCKParams 5 5)) (Some False)]))
          (seq (sleep 1)
          (seq (sdk (ModifyIndex (book, book_segments) ''vector_idx'' True
                       ''2024-01-01 00:00:00''))
          (bind (describe_index (book, book_segments) ''vector_idx'') (\<lambda>index.
                log ''index''))))
          w tr'"
proof -
  have after: "seq (drop_index_and_wait n) q w tr = q w tr'" for q :: "unit prog"
    using wait by (simp add: seq_def bind_def)
  show "drop_and_create_vindex HNSW n w tr =
        seq (sdk (CreateIndexes (book, book_segments)
                   [VectorIndex ''vector_idx'' HNSW ''vector'' L2 (Some (HNSWParams 16 200)) (Some False)]))
          (seq (sleep 1)
          (seq (sdk (ModifyIndex (book, book_segments) ''vector_idx'' True
                       ''2024-01-01 00:00:00''))
          (bind (describe_index (book, book_segments) ''vector_idx'') (\<lambda>index.
                log ''index''))))
          w tr'"
    and "drop_and_create_vindex HNSWPQ n w tr =
        seq (sdk (CreateIndexes (book, book_segments)
                   [VectorIndex ''vector_idx'' HNSWPQ ''vector'' L2 (Some (HNSWPQParams 16 200 4 ''1.0'')) (None)]))
          (seq (sleep 1)
          (seq (sdk (ModifyIndex (book, book_segments) ''vector_idx'' True
                       ''2024-01-01 00:00:00''))
          (bind (describe_index (book, book_segments) ''vector_idx'') (\<lambda>index.
                log ''index''))))
          w tr'"
    and "drop_and_create_vindex PUCK n w tr =
        seq (sdk (CreateIndexes (book, book_segments)
                   [VectorIndex ''vector_idx'' PUCK ''vector'' L2 (Some (PUCKParams 5 5)) (Some False)]))
          (seq (sleep 1)
          (seq (sdk (ModifyIndex (book, book_segments) ''vector_idx'' True
                       ''2024-01-01 00:00:00''))
          (bind (describe_index (book, book_segments) ''vector_idx'') (\<lambda>index.
                log ''index''))))
          w tr'"
    unfolding drop_and_create_vindex_regroup after
    by (simp_all only: bind_ret if_True append_Nil append_Cons IndexType.distinct if_False
          simp_thms)
qed

lemma supported_create_indexes_call:
  assumes ty: "ty = HNSW \<or> ty = HNSWPQ \<or> ty = PUCK"
    and wait: "drop_index_and_wait n w tr = (tr', Return ())"
  shows "\<exists>vp ab a rest. fst (drop_and_create_vindex ty n w tr) =
     tr' @ Call (CreateIndexes (book, book_segments)
                   [VectorIndex ''vector_idx'' ty ''vector'' L2 (Some vp) ab]) a # rest"
proof -
  let ?cont = "seq (sleep 1)
       (seq (sdk (ModifyIndex (book, book_segments) ''vector_idx'' True ''2024-01-01 00:00:00''))
       (bind (describe_index (book, book_segments) ''vector_idx'') (\<lambda>index.
             log ''index'')))"
  let ?create = "\<lambda>vp ab. CreateIndexes (book, book_segments)
                   [VectorIndex ''vector_idx'' ty ''vector'' L2 (Some vp) ab]"
  have cont: "obeys (every (\<lambda>e. True)) ?cont"
    by (intro extends_rules) (simp_all add: every_def)
  from ty drop_and_create_vindex_reaches_create_indexes [OF wait]
  have "\<exists>vp ab. drop_and_create_vindex ty n w tr = seq (sdk (?create vp ab)) ?cont w tr'"
    by blast
  then obtain vp ab where
    run: "drop_and_create_vindex ty n w tr = seq (sdk (?create vp ab)) ?cont w tr'"
    by blast
  from sdk_then [OF cont, of "?create vp ab" w tr'] obtain a rest where
    "fst (seq (sdk (?create vp ab)) ?cont w tr') = tr' @ Call (?create vp ab) a # rest"
    by blast
  with run have "fst (drop_and_create_vindex ty n w tr) = tr' @ Call (?create vp ab) a # rest"
    by (simp only:)
  then show ?thesis by blast
qed

text \<open>
  Claim C5. With an index type other than \<open>HNSW\<close>, \<open>HNSWPQ\<close> and \<open>PUCK\<close>,
  \<^verbatim>\<open>create_db_and_table\<close> never calls \<^verbatim>\<open>create_table\<close> and never returns, and when
  \<^verbatim>\<open>create_database\<close> and \<^verbatim>\<open>list_databases\<close> have answered it raises
  \<^verbatim>\<open>Exception("not support index type")\<close> right after the log lines of the database list;
  \<^verbatim>\<open>drop_and_create_vindex\<close> never calls \<^verbatim>\<open>create_indexes\<close> and never returns, and when its
  statements up to the end of the wait loop have returned it raises the same exception at
  once. With one of the three types no exception is raised at that point: when
  \<^verbatim>\<open>create_database\<close> and \<^verbatim>\<open>list_databases\<close> have answered, the next event after the log lines
  is the \<^verbatim>\<open>create_table\<close> call, and its index list is one vector index of that type on field
  \<open>vector\<close> with metric \<open>L2\<close>, followed by the secondary, the filtering and the inverted index;
  when the statements of \<^verbatim>\<open>drop_and_create_vindex\<close> up to the end of the wait loop have
  returned, the next event is the \<^verbatim>\<open>create_indexes\<close> call with one such vector index and
  nothing else. Every \<^verbatim>\<open>create_table\<close> and \<^verbatim>\<open>create_indexes\<close> call of the two methods carries
  exactly one vector index, and the methods raise nothing but what an SDK call raised.
\<close>

theorem index_type_branch:
  "(ty \<noteq> HNSW \<and> ty \<noteq> HNSWPQ \<and> ty \<noteq> PUCK \<longrightarrow>
      list_all (\<lambda>e. \<not> is_CreateTable_event e) (emitted (create_db_and_table ty n) w tr)
      \<and> snd (create_db_and_table ty n w tr) \<noteq> Return ()
      \<and> (sdk_answer w tr (CreateDatabase book) = Inr ()
          \<and> list_databases_answer w (tr @ [Call (CreateDatabase book) (Inr Done)]) ListDatabases
              = Inr dbs \<longrightarrow>
          create_db_and_table ty n w tr =
            (tr @ [Call (CreateDatabase book) (Inr Done),
                   Call ListDatabases (Inr (DatabaseList dbs))]
                @ replicate (length dbs) (Log ''database''),
             Raise (Exception ''not support index type'')))
      \<and> list_all (\<lambda>e. \<not> is_CreateIndexes_event e) (emitted (drop_and_create_vindex ty n) w tr)
      \<and> snd (drop_and_create_vindex ty n w tr) \<noteq> Return ()
      \<and> (drop_index_and_wait n w tr = (tr', Return ()) \<longrightarrow>
          drop_and_create_vindex ty n w tr =
            (tr', Raise (Exception ''not support index type''))))
   \<and> (ty = HNSW \<or> ty = HNSWPQ \<or> ty = PUCK \<longrightarrow>
      list_all (creates_one_vector_index ty) (emitted (create_db_and_table ty n) w tr)
      \<and> fails_only_by_sdk (emitted (create_db_and_table ty n) w tr)
           (status_of (snd (create_db_and_table ty n w tr)))
      \<and> list_all (creates_one_vector_index ty) (emitted (drop_and_create_vindex ty n) w tr)
      \<and> fails_only_by_sdk (emitted (drop_and_create_vindex ty n) w tr)
           (status_of (snd (drop_and_create_vindex ty n w tr)))
      \<and> (sdk_answer w tr (CreateDatabase book) = Inr ()
          \<and> list_databases_answer w (tr @ [Call (CreateDatabase book) (Inr Done)]) ListDatabases
              = Inr dbs \<longrightarrow>
          (\<exists>vp a rest. emitted (create_db_and_table ty n) w tr =
             [Call (CreateDatabase book) (Inr Done),
              Call ListDatabases (Inr (DatabaseList dbs))] @
             replicate (length dbs) (Log ''database'') @
             Call (CreateTable book book_segments 3 1 book_fields
                     (Some [VectorIndex ''vector_idx'' ty ''vector'' L2 (Some vp) None,
                            SecondaryIndex ''book_name_idx'' ''bookName'',
                            FilteringIndex ''book_name_filtering_idx'' [''bookName''],
                            InvertedIndex ''book_segment_inverted_idx'' [''segment'']
                              (InvertedIndexParams CHINESE_ANALYZER COARSE_MODE True)
                              [ANALYZED]])) a
               # rest))
      \<and> (drop_index_and_wait n w tr = (tr', Return ()) \<longrightarrow>
          (\<exists>vp ab a rest. fst (drop_and_create_vindex ty n w tr) =
             tr' @ Call (CreateIndexes (book, book_segments)
                           [VectorIndex ''vector_idx'' ty ''vector'' L2 (Some vp) ab]) a
                   # rest)))"
proof (intro conjI impI; (elim conjE)?)
  assume "ty = HNSW \<or> ty = HNSWPQ \<or> ty = PUCK"
  note s = supported_create_db_and_table [OF this] supported_drop_and_create_vindex [OF this]
  from emitted_obeys [OF s(1)]
  show "list_all (creates_one_vector_index ty) (emitted (create_db_and_table ty n) w tr)"
    by (simp add: every_def)
  from emitted_obeys [OF s(2)]
  show "fails_only_by_sdk (emitted (create_db_and_table ty n) w tr)
           (status_of (snd (create_db_and_table ty n w tr)))" .
  from emitted_obeys [OF s(3)]
  show "list_all (creates_one_vector_index ty) (emitted (drop_and_create_vindex ty n) w tr)"
    by (simp add: every_def)
  from emitted_obeys [OF s(4)]
  show "fails_only_by_sdk (emitted (drop_and_create_vindex ty n) w tr)
           (status_of (snd (drop_and_create_vindex ty n w tr)))" .
next
  assume "ty = HNSW \<or> ty = HNSWPQ \<or> ty = PUCK"
    and "sdk_answer w tr (CreateDatabase book) = Inr ()"
    and "list_databases_answer w (tr @ [Call (CreateDatabase book) (Inr Done)]) ListDatabases
              = Inr dbs"
  then show "\<exists>vp a rest. emitted (create_db_and_table ty n) w tr =
             [Call (CreateDatabase book) (Inr Done),
              Call ListDatabases (Inr (DatabaseList dbs))] @
             replicate (length dbs) (Log ''database'') @
             Call (CreateTable book book_segments 3 1 book_fields
                     (Some [VectorIndex ''vector_idx'' ty ''vector'' L2 (Some vp) None,
                            SecondaryIndex ''book_name_idx'' ''bookName'',
                            FilteringIndex ''book_name_filtering_idx'' [''bookName''],
                            InvertedIndex ''book_segment_inverted_idx'' [''segment'']
                              (InvertedIndexParams CHINESE_ANALYZER COARSE_MODE True)
                              [ANALYZED]])) a
               # rest"
    by (rule supported_create_table_call)
next
  assume "ty = HNSW \<or> ty = HNSWPQ \<or> ty = PUCK"
    and "drop_index_and_wait n w tr = (tr', Return ())"
  then show "\<exists>vp ab a rest. fst (drop_and_create_vindex ty n w tr) =
             tr' @ Call (CreateIndexes (book, book_segments)
                           [VectorIndex ''vector_idx'' ty ''vector'' L2 (Some vp) ab]) a
                   # rest"
    by (rule supported_create_indexes_call)
next
  assume ty: "ty \<noteq> HNSW" "ty \<noteq> HNSWPQ" "ty \<noteq> PUCK"
  show "list_all (\<lambda>e. \<not> is_CreateTable_event e) (emitted (create_db_and_table ty n) w tr)"
    by (rule unsupported_create_db_and_table(1) [OF ty])
  show "snd (create_db_and_table ty n w tr) \<noteq> Return ()"
    by (rule unsupported_create_db_and_table(2) [OF ty])
  show "list_all (\<lambda>e. \<not> is_CreateIndexes_event e) (emitted (drop_and_create_vindex ty n) w tr)"
    by (rule unsupported_drop_and_create_vindex(1) [OF ty])
  show "snd (drop_and_create_vindex ty n w tr) \<noteq> Return ()"
    by (rule unsupported_drop_and_create_vindex(2) [OF ty])
next
  assume ty: "ty \<noteq> HNSW" "ty \<noteq> HNSWPQ" "ty \<noteq> PUCK"
    and "sdk_answer w tr (CreateDatabase book) = Inr ()"
    and "list_databases_answer w (tr @ [Call (CreateDatabase book) (Inr Done)]) ListDatabases
              = Inr dbs"
  then show "create_db_and_table ty n w tr =
            (tr @ [Call (CreateDatabase book) (Inr Done),
                   Call ListDatabases (Inr (DatabaseList dbs))]
                @ replicate (length dbs) (Log ''database''),
             Raise (Exception ''not support index type''))"
    by (rule unsupported_create_db_and_table(3))
next
  assume ty: "ty \<noteq> HNSW" "ty \<noteq> HNSWPQ" "ty \<noteq> PUCK"
    and "drop_index_and_wait n w tr = (tr', Return ())"
  then show "drop_and_create_vindex ty n w tr =
            (tr', Raise (Exception ''not support index type''))"
    by (rule unsupported_drop_and_create_vindex(3))
qed

theorem index_type_branch_witness:
  "SPARSE_OPTIMIZED_FLAT \<noteq> HNSW \<and> SPARSE_OPTIMIZED_FLAT \<noteq> HNSWPQ \<and> SPARSE_OPTIMIZED_FLAT \<noteq> PUCK
   \<and> sdk_answer friendly [] (CreateDatabase book) = Inr ()
   \<and> list_databases_answer friendly [Call (CreateDatabase book) (Inr Done)] ListDatabases
        = Inr [book]
   \<and> create_db_and_table SPARSE_OPTIMIZED_FLAT (Suc (Suc 0)) friendly [] =
        ([Call (CreateDatabase book) (Inr Done), Call ListDatabases (Inr (DatabaseList [book])),
          Log ''database''],
         Raise (Exception ''not support index type''))
   \<and> drop_index_and_wait (Suc (Suc 0)) friendly [] =
        ([Call (Database book) (Inr Done), Call (Table book book_segments) (Inr Done),
          Call (DropIndex (book, book_segments) ''vector_idx'') (Inr Done), Sleep 2,
          Call (DescribeIndex (book, book_segments) ''vector_idx'')
            (Inl (ServerError INDEX_NOT_EXIST)),
          Log ''code''], Return ())
   \<and> drop_and_create_vindex SPARSE_OPTIMIZED_FLAT (Suc (Suc 0)) friendly [] =
        ([Call (Database book) (Inr Done), Call (Table book book_segments) (Inr Done),
          Call (DropIndex (book, book_segments) ''vector_idx'') (Inr Done), Sleep 2,
          Call (DescribeIndex (book, book_segments) ''vector_idx'')
            (Inl (ServerError INDEX_NOT_EXIST)),
          Log ''code''], Raise (Exception ''not support index type''))
   \<and> list_all (creates_one_vector_index PUCK)
        (emitted (create_db_and_table PUCK (Suc (Suc 0))) friendly [])
   \<and> list_all (creates_one_vector_index PUCK)
        (emitted (drop_and_create_vindex PUCK (Suc (Suc 0))) friendly [])
   \<and> emitted (drop_and_create_vindex PUCK (Suc (Suc 0))) friendly [] ! 6 =
        Call (CreateIndexes (book, book_segments)
                [VectorIndex ''vector_idx'' PUCK ''vector'' L2 (Some (PUCKParams 5 5)) (Some False)])
          (Inr Done)
   \<and> take 4 (emitted (create_db_and_table PUCK (Suc (Suc 0))) friendly []) =
        [Call (CreateDatabase book) (Inr Done), Call ListDatabases (Inr (DatabaseList [book])),
         Log ''database'',
         Call (CreateTable book book_segments 3 1 book_fields
                 (Some [VectorIndex ''vector_idx'' PUCK ''vector'' L2 (Some (PUCKParams 5 5)) None,
                        SecondaryIndex ''book_name_idx'' ''bookName'',
                        FilteringIndex ''book_name_filtering_idx'' [''bookName''],
                        InvertedIndex ''book_segment_inverted_idx'' [''segment'']
                          (InvertedIndexParams CHINESE_ANALYZER COARSE_MODE True) [ANALYZED]]))
           (Inr Done)]
   \<and> snd (create_db_and_table PUCK (Suc (Suc 0)) friendly []) = Return ()
   \<and> snd (drop_and_create_vindex PUCK (Suc (Suc 0)) friendly []) = Return ()"
proof -
  have "take 4 (emitted (create_db_and_table PUCK (Suc (Suc 0))) friendly []) =
        [Call (CreateDatabase book) (Inr Done), Call ListDatabases (Inr (DatabaseList [book])),
         Log ''database'',
         Call (CreateTable book book_segments 3 1 book_fields
                 (Some [VectorIndex ''vector_idx'' PUCK ''vector'' L2 (Some (PUCKParams 5 5)) None,
                        SecondaryIndex ''book_name_idx'' ''bookName'',
                        FilteringIndex ''book_name_filtering_idx'' [''bookName''],
                        InvertedIndex ''book_segment_inverted_idx'' [''segment'']
                          (InvertedIndexParams CHINESE_ANALYZER COARSE_MODE True) [ANALYZED]]))
           (Inr Done)]"
    "snd (create_db_and_table PUCK (Suc (Suc 0)) friendly []) = Return ()"
    "snd (drop_and_create_vindex PUCK (Suc (Suc 0)) friendly []) = Return ()"
    by (simp_all add: emitted_def create_db_and_table_def drop_and_create_vindex_def
          friendly_defs)
  moreover
  have "emitted (drop_and_create_vindex PUCK (Suc (Suc 0))) friendly [] ! 6 =
        Call (CreateIndexes (book, book_segments)
                [VectorIndex ''vector_idx'' PUCK ''vector'' L2 (Some (PUCKParams 5 5)) (Some False)])
          (Inr Done)"
    by (simp add: emitted_def drop_and_create_vindex_def friendly_defs)
  ultimately show ?thesis
    using index_type_branch [of SPARSE_OPTIMIZED_FLAT "Suc (Suc 0)" friendly "[]" "[book]"
        "[Call (Database book) (Inr Done), Call (Table book book_segments) (Inr Done),
          Call (DropIndex (book, book_segments) ''vector_idx'') (Inr Done), Sleep 2,
          Call (DescribeIndex (book, book_segments) ''vector_idx'')
            (Inl (ServerError INDEX_NOT_EXIST)),
          Log ''code'']"]
      index_type_branch [of PUCK "Suc (Suc 0)" friendly "[]" "[book]"
        "[Call (Database book) (Inr Done), Call (Table book book_segments) (Inr Done),
          Call (DropIndex (book, book_segments) ''vector_idx'') (Inr Done), Sleep 2,
          Call (DescribeIndex (book, book_segments) ''vector_idx'')
            (Inl (ServerError INDEX_NOT_EXIST)),
          Log ''code'']"]
    by (simp add: drop_index_and_wait_def friendly_defs)
qed


end
